theory Spec2Isabelle
  imports Main
begin

section \<open>JavaScript values\<close>

text \<open>
  The report engine of \<^verbatim>\<open>src/index.js\<close> works on dynamically typed data: the error, the
  request and everything below them. A value is a tree: \<open>undefined\<close>, \<open>null\<close>, a boolean,
  a number, a string, an array, or a plain object given by its own enumerable properties
  in enumeration order (the keys of one object are distinct).

  A number is an integer of magnitude below \<open>10^21\<close>, which JavaScript prints in plain
  decimal; the model has no fractions, no \<open>NaN\<close> and no infinities, and says nothing of
  larger integers, which print in exponent notation. A \<open>char\<close> of a string is one UTF-16
  code unit below 256. The trees are finite, so no object contains itself.
\<close>

datatype jsval =
    VUndef
  | VNull
  | VBool bool
  | VNum int
  | VStr string
  | VArr "jsval list"
  | VObj "(string \<times> jsval) list"

datatype error = TypeError | SyntaxError

subsection \<open>Strings\<close>

text \<open>\<^verbatim>\<open>String.prototype.toLowerCase\<close> on code units below 256: the letters A-Z and the
  capital letters of Latin-1 (0xC0-0xD6, 0xD8-0xDE) move up by 32.\<close>

definition lower_char :: "char \<Rightarrow> char" where
  "lower_char c =
     (let n = (of_char c :: nat)
      in if (65 \<le> n \<and> n \<le> 90) \<or> (192 \<le> n \<and> n \<le> 214) \<or> (216 \<le> n \<and> n \<le> 222)
         then char_of (n + 32) else c)"

definition toLowerCase :: "string \<Rightarrow> string" where
  "toLowerCase s = map lower_char s"

text \<open>\<^verbatim>\<open>toUpperCase\<close> is applied to hexadecimal digits only (line 72).\<close>

definition upper_char :: "char \<Rightarrow> char" where
  "upper_char c =
     (let n = (of_char c :: nat)
      in if 97 \<le> n \<and> n \<le> 122 then char_of (n - 32) else c)"

definition toUpperCase :: "string \<Rightarrow> string" where
  "toUpperCase s = map upper_char s"

fun startsWith :: "string \<Rightarrow> string \<Rightarrow> bool" where
  "startsWith s [] = True"
| "startsWith [] (c # t) = False"
| "startsWith (d # s) (c # t) = (d = c \<and> startsWith s t)"

text \<open>\<^verbatim>\<open>s.includes(t)\<close>: \<open>t\<close> occurs in \<open>s\<close> as a contiguous run of code units.\<close>

fun str_includes :: "string \<Rightarrow> string \<Rightarrow> bool" where
  "str_includes [] t = (t = [])"
| "str_includes (c # s) t = (startsWith (c # s) t \<or> str_includes s t)"

text \<open>\<^verbatim>\<open>s.substring(0, n)\<close>: a negative \<open>n\<close> counts as 0.\<close>

definition substring0 :: "string \<Rightarrow> int \<Rightarrow> string" where
  "substring0 s n = take (nat n) s"

text \<open>\<^verbatim>\<open>s.split('\n')\<close>: the pieces between line feeds; an empty string gives one empty
  piece.\<close>

fun split_lines :: "string \<Rightarrow> string list" where
  "split_lines [] = [[]]"
| "split_lines (c # s) =
     (if c = CHR 0x0A then [] # split_lines s
      else (case split_lines s of [] \<Rightarrow> [[c]] | l # ls \<Rightarrow> (c # l) # ls))"

text \<open>\<^verbatim>\<open>xs.join(sep)\<close> on strings.\<close>

fun join :: "string \<Rightarrow> string list \<Rightarrow> string" where
  "join sep [] = []"
| "join sep [x] = x"
| "join sep (x # y # ys) = x @ sep @ join sep (y # ys)"

text \<open>\<^verbatim>\<open>xs.slice(0, n)\<close>: a negative \<open>n\<close> counts from the end.\<close>

definition slice0 :: "'a list \<Rightarrow> int \<Rightarrow> 'a list" where
  "slice0 xs n = (if n < 0 then take (length xs - nat (- n)) xs else take (nat n) xs)"

subsection \<open>Numbers as text\<close>

definition digit_char :: "nat \<Rightarrow> char" where
  "digit_char d = char_of (48 + d)"

fun show_nat :: "nat \<Rightarrow> string" where
  "show_nat n = (if n < 10 then [digit_char n] else show_nat (n div 10) @ [digit_char (n mod 10)])"

definition show_int :: "int \<Rightarrow> string" where
  "show_int i = (if i < 0 then CHR ''-'' # show_nat (nat (- i)) else show_nat (nat i))"

subsection \<open>Truthiness, property reads, conversion to string\<close>

fun truthy :: "jsval \<Rightarrow> bool" where
  "truthy VUndef = False"
| "truthy VNull = False"
| "truthy (VBool b) = b"
| "truthy (VNum n) = (n \<noteq> 0)"
| "truthy (VStr s) = (s \<noteq> [])"
| "truthy (VArr xs) = True"
| "truthy (VObj ms) = True"

text \<open>\<^verbatim>\<open>a || b\<close>\<close>

definition or_else :: "jsval \<Rightarrow> jsval \<Rightarrow> jsval" where
  "or_else a b = (if truthy a then a else b)"

fun lookup :: "(string \<times> jsval) list \<Rightarrow> string \<Rightarrow> jsval" where
  "lookup [] k = VUndef"
| "lookup ((k', v) # ms) k = (if k' = k then v else lookup ms k)"

text \<open>
  \<^verbatim>\<open>v.name\<close> for the field names the engine reads (\<open>message\<close>, \<open>stack\<close>, \<open>name\<close>,
  \<open>code\<close>, \<open>method\<close>, \<open>url\<close>, \<open>originalUrl\<close>, \<open>ip\<close>, \<open>connection\<close>, \<open>remoteAddress\<close>,
  \<open>headers\<close>, \<open>user-agent\<close>, \<open>body\<close>, \<open>query\<close>, \<open>params\<close>): reading a property of
  \<open>undefined\<close> or \<open>null\<close> throws a TypeError; a primitive or an array has none of these
  properties; an object gives its own property or \<open>undefined\<close>.
\<close>

fun get_prop :: "jsval \<Rightarrow> string \<Rightarrow> error + jsval" where
  "get_prop VUndef k = Inl TypeError"
| "get_prop VNull k = Inl TypeError"
| "get_prop (VObj ms) k = Inr (lookup ms k)"
| "get_prop v k = Inr VUndef"

text \<open>\<^verbatim>\<open>v?.name\<close>\<close>

fun get_opt :: "jsval \<Rightarrow> string \<Rightarrow> jsval" where
  "get_opt (VObj ms) k = lookup ms k"
| "get_opt v k = VUndef"

text \<open>
  The conversion of a value to a string (the operation \<open>ToString\<close> of the standard), which
  a template literal applies. On a plain object it calls the method \<open>toString\<close> that the
  object inherits from \<^verbatim>\<open>Object.prototype\<close>, and the text is \<open>[object Object]\<close>. An own
  property named \<open>toString\<close> hides that method; the trees hold data, so the property is
  not a function, and \<open>valueOf\<close> (own and not a function, or inherited and returning the
  object itself) gives no primitive either: the conversion throws a TypeError. An array
  joins the conversions of its elements, writing nothing for \<open>undefined\<close> and \<open>null\<close>, and
  throws when one of them throws.

  \<open>convertible v\<close>: the conversion of \<open>v\<close> does not throw. \<open>toString v\<close>: the text it then
  gives. \<open>template v\<close>: the conversion, with its error.
\<close>

fun convertible :: "jsval \<Rightarrow> bool"
  and convertible_elems :: "jsval list \<Rightarrow> bool" where
  "convertible (VObj ms) = (''toString'' \<notin> set (map fst ms))"
| "convertible (VArr xs) = convertible_elems xs"
| "convertible v = True"
| "convertible_elems [] = True"
| "convertible_elems (x # xs) = (convertible x \<and> convertible_elems xs)"

fun toString :: "jsval \<Rightarrow> string"
  and toString_elems :: "jsval list \<Rightarrow> string" where
  "toString VUndef = ''undefined''"
| "toString VNull = ''null''"
| "toString (VBool b) = (if b then ''true'' else ''false'')"
| "toString (VNum n) = show_int n"
| "toString (VStr s) = s"
| "toString (VArr xs) = toString_elems xs"
| "toString (VObj ms) = ''[object Object]''"
| "toString_elems [] = []"
| "toString_elems [x] = (if x = VUndef \<or> x = VNull then [] else toString x)"
| "toString_elems (x # y # ys) =
     (if x = VUndef \<or> x = VNull then [] else toString x) @ '','' @ toString_elems (y # ys)"

definition template :: "jsval \<Rightarrow> error + string" where
  "template v = (if convertible v then Inr (toString v) else Inl TypeError)"

section \<open>JSON serialization\<close>

text \<open>
  \<^verbatim>\<open>JSON.stringify\<close> on a value tree. A string is quoted, with the escapes of the
  standard: the quote, the backslash, and the control characters below 0x20.
\<close>

definition hex_char :: "nat \<Rightarrow> char" where
  "hex_char d = (if d < 10 then char_of (48 + d) else char_of (87 + d))"

definition quote_char :: "char \<Rightarrow> string" where
  "quote_char c =
     (let n = (of_char c :: nat)
      in if n = 8 then [CHR 0x5C, CHR ''b'']
         else if n = 9 then [CHR 0x5C, CHR ''t'']
         else if n = 10 then [CHR 0x5C, CHR ''n'']
         else if n = 12 then [CHR 0x5C, CHR ''f'']
         else if n = 13 then [CHR 0x5C, CHR ''r'']
         else if n = 34 then [CHR 0x5C, CHR 0x22]
         else if n = 92 then [CHR 0x5C, CHR 0x5C]
         else if n < 32 then [CHR 0x5C, CHR ''u'', CHR ''0'', CHR ''0'', hex_char (n div 16), hex_char (n mod 16)]
         else [c])"

definition quote :: "string \<Rightarrow> string" where
  "quote s = [CHR 0x22] @ concat (map quote_char s) @ [CHR 0x22]"

text \<open>
  The compact form, \<^verbatim>\<open>JSON.stringify(v)\<close>. The result \<open>None\<close> is JavaScript's
  \<open>undefined\<close>: a property holding \<open>undefined\<close> is left out of its object, an array
  element holding \<open>undefined\<close> is written \<open>null\<close>.
\<close>

fun JSON_stringify :: "jsval \<Rightarrow> string option"
  and stringify_elems :: "jsval list \<Rightarrow> string list"
  and stringify_members :: "(string \<times> jsval) list \<Rightarrow> string list" where
  "JSON_stringify VUndef = None"
| "JSON_stringify VNull = Some ''null''"
| "JSON_stringify (VBool b) = Some (if b then ''true'' else ''false'')"
| "JSON_stringify (VNum n) = Some (show_int n)"
| "JSON_stringify (VStr s) = Some (quote s)"
| "JSON_stringify (VArr xs) = Some (''['' @ join '','' (stringify_elems xs) @ '']'')"
| "JSON_stringify (VObj ms) = Some (''{'' @ join '','' (stringify_members ms) @ ''}'')"
| "stringify_elems [] = []"
| "stringify_elems (x # xs) =
     (case JSON_stringify x of None \<Rightarrow> ''null'' | Some s \<Rightarrow> s) # stringify_elems xs"
| "stringify_members [] = []"
| "stringify_members ((k, v) # ms) =
     (case JSON_stringify v of
        None \<Rightarrow> stringify_members ms
      | Some s \<Rightarrow> (quote k @ '':'' @ s) # stringify_members ms)"

text \<open>
  The indented form, \<^verbatim>\<open>JSON.stringify(v, null, 2)\<close>, at the indentation of \<open>ind\<close>
  spaces: an empty array or object is \<open>[]\<close> or \<open>{}\<close>; otherwise each entry stands on a
  line of its own, two spaces further in, and the closing bracket at \<open>ind\<close>.
\<close>

definition spaces :: "nat \<Rightarrow> string" where
  "spaces n = replicate n CHR '' ''"

definition wrap_pretty :: "string \<Rightarrow> string \<Rightarrow> nat \<Rightarrow> string list \<Rightarrow> string" where
  "wrap_pretty opn cls ind partial =
     (if partial = [] then opn @ cls
      else opn @ [CHR 0x0A] @ spaces (ind + 2)
           @ join ('','' @ [CHR 0x0A] @ spaces (ind + 2)) partial
           @ [CHR 0x0A] @ spaces ind @ cls)"

fun pretty :: "nat \<Rightarrow> jsval \<Rightarrow> string option"
  and pretty_elems :: "nat \<Rightarrow> jsval list \<Rightarrow> string list"
  and pretty_members :: "nat \<Rightarrow> (string \<times> jsval) list \<Rightarrow> string list" where
  "pretty ind VUndef = None"
| "pretty ind VNull = Some ''null''"
| "pretty ind (VBool b) = Some (if b then ''true'' else ''false'')"
| "pretty ind (VNum n) = Some (show_int n)"
| "pretty ind (VStr s) = Some (quote s)"
| "pretty ind (VArr xs) = Some (wrap_pretty ''['' '']'' ind (pretty_elems (ind + 2) xs))"
| "pretty ind (VObj ms) = Some (wrap_pretty ''{'' ''}'' ind (pretty_members (ind + 2) ms))"
| "pretty_elems ind [] = []"
| "pretty_elems ind (x # xs) =
     (case pretty ind x of None \<Rightarrow> ''null'' | Some s \<Rightarrow> s) # pretty_elems ind xs"
| "pretty_members ind [] = []"
| "pretty_members ind ((k, v) # ms) =
     (case pretty ind v of
        None \<Rightarrow> pretty_members ind ms
      | Some s \<Rightarrow> (quote k @ '': '' @ s) # pretty_members ind ms)"

definition JSON_stringify_pretty :: "jsval \<Rightarrow> string option" where
  "JSON_stringify_pretty v = pretty 0 v"

text \<open>
  \<^verbatim>\<open>JSON.parse(JSON.stringify(v))\<close>: the text is read back into a fresh tree. What the
  text left out is gone from the tree: properties holding \<open>undefined\<close> are dropped, array
  elements holding \<open>undefined\<close> come back as \<open>null\<close>. When \<open>v\<close> is \<open>undefined\<close> there is
  no text and \<^verbatim>\<open>JSON.parse\<close> throws a SyntaxError.
\<close>

fun reparse :: "jsval \<Rightarrow> jsval"
  and reparse_elems :: "jsval list \<Rightarrow> jsval list"
  and reparse_members :: "(string \<times> jsval) list \<Rightarrow> (string \<times> jsval) list" where
  "reparse (VArr xs) = VArr (reparse_elems xs)"
| "reparse (VObj ms) = VObj (reparse_members ms)"
| "reparse v = v"
| "reparse_elems [] = []"
| "reparse_elems (x # xs) = (if x = VUndef then VNull else reparse x) # reparse_elems xs"
| "reparse_members [] = []"
| "reparse_members ((k, v) # ms) =
     (if v = VUndef then reparse_members ms else (k, reparse v) # reparse_members ms)"

definition JSON_parse_stringify :: "jsval \<Rightarrow> error + jsval" where
  "JSON_parse_stringify v = (if v = VUndef then Inl SyntaxError else Inr (reparse v))"

section \<open>The Redactor: \<^verbatim>\<open>cleanObject\<close> (lines 78-97)\<close>

text \<open>The replacer function of lines 81-89: the value is replaced when some entry of the
  deny-list, in lower case, occurs in the key in lower case.\<close>

definition replacer :: "string list \<Rightarrow> string \<Rightarrow> jsval \<Rightarrow> jsval" where
  "replacer redactKeys key value =
     (if list_ex (\<lambda>redactKey. str_includes (toLowerCase key) (toLowerCase redactKey)) redactKeys
      then VStr ''[REDACTED]''
      else value)"

text \<open>
  \<^verbatim>\<open>JSON.stringify(obj, replacer)\<close> passes every property through the replacer before it
  serializes it: the root under the key \<open>""\<close>, a property of an object under its name, an
  element of an array under its index in decimal. It descends into what the replacer
  returned. \<open>apply_replacer\<close> is the tree that is serialized.
\<close>

function apply_replacer :: "string list \<Rightarrow> string \<Rightarrow> jsval \<Rightarrow> jsval"
  and replace_elems :: "string list \<Rightarrow> nat \<Rightarrow> jsval list \<Rightarrow> jsval list"
  and replace_members :: "string list \<Rightarrow> (string \<times> jsval) list \<Rightarrow> (string \<times> jsval) list" where
  "apply_replacer redactKeys key value =
     (case replacer redactKeys key value of
        VArr xs \<Rightarrow> VArr (replace_elems redactKeys 0 xs)
      | VObj ms \<Rightarrow> VObj (replace_members redactKeys ms)
      | v \<Rightarrow> v)"
| "replace_elems redactKeys i [] = []"
| "replace_elems redactKeys i (x # xs) =
     apply_replacer redactKeys (show_nat i) x # replace_elems redactKeys (Suc i) xs"
| "replace_members redactKeys [] = []"
| "replace_members redactKeys ((k, v) # ms) =
     (k, apply_replacer redactKeys k v) # replace_members redactKeys ms"
  by pat_completeness auto
termination
  by (relation "measure (\<lambda>a. case a of
         Inl (_, _, v) \<Rightarrow> size v
       | Inr (Inl (_, _, xs)) \<Rightarrow> size_list size xs
       | Inr (Inr (_, ms)) \<Rightarrow> size_list (size_prod (\<lambda>k. 0) size) ms)")
     (auto simp: replacer_def split: if_splits)

text \<open>\<^verbatim>\<open>typeof v === 'object'\<close>\<close>

fun typeof_object :: "jsval \<Rightarrow> bool" where
  "typeof_object VNull = True"
| "typeof_object (VArr xs) = True"
| "typeof_object (VObj ms) = True"
| "typeof_object v = False"

text \<open>Reading \<open>.length\<close> or calling \<open>.substring\<close> on \<open>undefined\<close> throws a TypeError.\<close>

definition cleanObject :: "jsval \<Rightarrow> string list \<Rightarrow> int \<Rightarrow> error + jsval" where
  "cleanObject obj redactKeys maxSize =
     (if \<not> truthy obj \<or> \<not> typeof_object obj then Inr obj
      else
        case JSON_parse_stringify (apply_replacer redactKeys [] obj) of
          Inl e \<Rightarrow> Inl e
        | Inr cleaned \<Rightarrow>
            (case JSON_stringify_pretty cleaned of
               None \<Rightarrow> Inl TypeError
             | Some jsonString \<Rightarrow>
                 if int (length jsonString) > maxSize then
                   (case JSON_stringify cleaned of
                      None \<Rightarrow> Inl TypeError
                    | Some compact \<Rightarrow> Inr (VStr (substring0 compact maxSize @ ''... [TRUNCATED]'')))
                 else Inr cleaned))"

section \<open>Configuration (lines 16-28)\<close>

text \<open>
  The options are typed as \<^verbatim>\<open>src/types.d.ts\<close> declares them; \<open>maxStackLines\<close> and
  \<open>maxBodySize\<close> are integers. The caller's options may leave any field out; the
  effective configuration \<^verbatim>\<open>{ ...defaultOptions, ...options }\<close> takes the default there.
\<close>

record config =
  redact :: "string list"
  includeEnvironment :: bool
  includeTimestamp :: bool
  includePerformance :: bool
  theme :: string
  maxStackLines :: int
  maxBodySize :: int
  includeUserAgent :: bool
  includeMemoryUsage :: bool
  generateErrorId_flag :: bool
  severity :: string
  appVersion :: "string option"

definition defaultOptions :: config where
  "defaultOptions =
     \<lparr> redact = [''password'', ''token'', ''key'', ''secret'', ''auth'', ''authorization'', ''cookie''],
       includeEnvironment = True,
       includeTimestamp = True,
       includePerformance = True,
       theme = ''github'',
       maxStackLines = 50,
       maxBodySize = 1000,
       includeUserAgent = True,
       includeMemoryUsage = True,
       generateErrorId_flag = True,
       severity = ''error'',
       appVersion = None \<rparr>"

record options =
  opt_redact :: "string list option"
  opt_includeEnvironment :: "bool option"
  opt_includeTimestamp :: "bool option"
  opt_includePerformance :: "bool option"
  opt_theme :: "string option"
  opt_maxStackLines :: "int option"
  opt_maxBodySize :: "int option"
  opt_includeUserAgent :: "bool option"
  opt_includeMemoryUsage :: "bool option"
  opt_generateErrorId :: "bool option"
  opt_severity :: "string option"
  opt_appVersion :: "string option"

definition no_options :: options where
  "no_options =
     \<lparr> opt_redact = None, opt_includeEnvironment = None, opt_includeTimestamp = None,
       opt_includePerformance = None, opt_theme = None, opt_maxStackLines = None,
       opt_maxBodySize = None, opt_includeUserAgent = None, opt_includeMemoryUsage = None,
       opt_generateErrorId = None, opt_severity = None, opt_appVersion = None \<rparr>"

definition override :: "'a \<Rightarrow> 'a option \<Rightarrow> 'a" where
  "override d x = (case x of None \<Rightarrow> d | Some y \<Rightarrow> y)"

definition merge_config :: "config \<Rightarrow> options \<Rightarrow> config" where
  "merge_config d opts =
     \<lparr> redact = override (redact d) (opt_redact opts),
       includeEnvironment = override (includeEnvironment d) (opt_includeEnvironment opts),
       includeTimestamp = override (includeTimestamp d) (opt_includeTimestamp opts),
       includePerformance = override (includePerformance d) (opt_includePerformance opts),
       theme = override (theme d) (opt_theme opts),
       maxStackLines = override (maxStackLines d) (opt_maxStackLines opts),
       maxBodySize = override (maxBodySize d) (opt_maxBodySize opts),
       includeUserAgent = override (includeUserAgent d) (opt_includeUserAgent opts),
       includeMemoryUsage = override (includeMemoryUsage d) (opt_includeMemoryUsage opts),
       generateErrorId_flag = override (generateErrorId_flag d) (opt_generateErrorId opts),
       severity = override (severity d) (opt_severity opts),
       appVersion = (case opt_appVersion opts of None \<Rightarrow> appVersion d | Some v \<Rightarrow> Some v) \<rparr>"

section \<open>Lookup tables: themes (lines 33-58) and severities (lines 125-133)\<close>

text \<open>
  Both tables are object literals read with a computed key, \<^verbatim>\<open>themes[config.theme]\<close> and
  \<^verbatim>\<open>severityMap[severity]\<close>. Such a read finds the object's own property and, failing
  that, a property inherited from \<^verbatim>\<open>Object.prototype\<close>; only when neither exists is the
  result \<open>undefined\<close>. The inherited members are functions, and \<open>__proto__\<close> is the
  prototype object itself: all of them are truthy.
\<close>

datatype 'a table_value = Own 'a | Inherited string

definition object_prototype_keys :: "string list" where
  "object_prototype_keys =
     [''constructor'', ''__defineGetter__'', ''__defineSetter__'', ''hasOwnProperty'',
      ''__lookupGetter__'', ''__lookupSetter__'', ''isPrototypeOf'', ''propertyIsEnumerable'',
      ''toString'', ''valueOf'', ''__proto__'', ''toLocaleString'']"

definition table_get :: "(string \<times> 'a) list \<Rightarrow> string \<Rightarrow> 'a table_value option" where
  "table_get table name =
     (case map_of table name of
        Some x \<Rightarrow> Some (Own x)
      | None \<Rightarrow> if name \<in> set object_prototype_keys then Some (Inherited name) else None)"

text \<open>The text a template literal gives for an inherited member.\<close>

definition inherited_text :: "string \<Rightarrow> string" where
  "inherited_text name =
     (if name = ''__proto__'' then ''[object Object]''
      else ''function '' @ (if name = ''constructor'' then ''Object'' else name)
           @ ''() { [native code] }'')"

text \<open>Characters outside Latin-1 occur in the fixed display tokens only; they are written
  as their UTF-8 bytes, and nothing inspects or measures them.\<close>

definition emoji_bug :: string where "emoji_bug = [CHR 0xF0, CHR 0x9F, CHR 0x90, CHR 0x9B]"
definition emoji_cross :: string where "emoji_cross = [CHR 0xE2, CHR 0x9D, CHR 0x8C]"
definition emoji_clipboard :: string where "emoji_clipboard = [CHR 0xF0, CHR 0x9F, CHR 0x93, CHR 0x8B]"
definition emoji_globe :: string where "emoji_globe = [CHR 0xF0, CHR 0x9F, CHR 0x8C, CHR 0x90]"
definition emoji_computer :: string where "emoji_computer = [CHR 0xF0, CHR 0x9F, CHR 0x92, CHR 0xBB]"
definition emoji_bulb :: string where "emoji_bulb = [CHR 0xF0, CHR 0x9F, CHR 0x92, CHR 0xA1]"
definition emoji_warning :: string where
  "emoji_warning = [CHR 0xE2, CHR 0x9A, CHR 0xA0, CHR 0xEF, CHR 0xB8, CHR 0x8F]"
definition emoji_siren :: string where "emoji_siren = [CHR 0xF0, CHR 0x9F, CHR 0x9A, CHR 0xA8]"
definition emoji_zap :: string where "emoji_zap = [CHR 0xE2, CHR 0x9A, CHR 0xA1]"
definition emoji_rocket :: string where "emoji_rocket = [CHR 0xF0, CHR 0x9F, CHR 0x9A, CHR 0x80]"

record Theme =
  title :: string
  errorIcon :: string
  stackIcon :: string
  requestIcon :: string
  envIcon :: string
  separator :: string

definition github :: Theme where
  "github =
     \<lparr> title = ''## '' @ emoji_bug @ '' Bug Report'',
       errorIcon = emoji_cross,
       stackIcon = emoji_clipboard,
       requestIcon = emoji_globe,
       envIcon = emoji_computer,
       separator = ''---'' \<rparr>"

definition slack :: Theme where
  "slack =
     \<lparr> title = ''*'' @ emoji_bug @ '' Bug Report*'',
       errorIcon = '':x:'',
       stackIcon = '':clipboard:'',
       requestIcon = '':globe_with_meridians:'',
       envIcon = '':computer:'',
       separator = ''```'' \<rparr>"

definition discord :: Theme where
  "discord =
     \<lparr> title = ''## '' @ emoji_bug @ '' Bug Report'',
       errorIcon = emoji_cross,
       stackIcon = emoji_clipboard,
       requestIcon = emoji_globe,
       envIcon = emoji_computer,
       separator = ''```diff'' \<rparr>"

definition themes :: "(string \<times> Theme) list" where
  "themes = [(''github'', github), (''slack'', slack), (''discord'', discord)]"

text \<open>Line 140: \<^verbatim>\<open>themes[config.theme] || themes.github\<close>.\<close>

definition resolveTheme :: "string \<Rightarrow> Theme table_value" where
  "resolveTheme name = (case table_get themes name of Some t \<Rightarrow> t | None \<Rightarrow> Own github)"

text \<open>\<^verbatim>\<open>theme.title\<close> and the like: a token of a theme, \<open>undefined\<close> on an inherited
  member, which has no such property.\<close>

definition token :: "(Theme \<Rightarrow> string) \<Rightarrow> Theme table_value \<Rightarrow> jsval" where
  "token field t = (case t of Own th \<Rightarrow> VStr (field th) | Inherited m \<Rightarrow> VUndef)"

definition severityMap :: "(string \<times> string) list" where
  "severityMap =
     [(''info'', emoji_bulb @ '' INFO''),
      (''warning'', emoji_warning @ '' WARNING''),
      (''error'', emoji_cross @ '' ERROR''),
      (''critical'', emoji_siren @ '' CRITICAL'')]"

text \<open>Line 132: \<^verbatim>\<open>severityMap[severity] || severityMap.error\<close>; the labels are non-empty
  strings, hence truthy.\<close>

definition formatSeverity :: "string \<Rightarrow> string table_value" where
  "formatSeverity sev =
     (case table_get severityMap sev of
        Some l \<Rightarrow> l
      | None \<Rightarrow> Own (emoji_cross @ '' ERROR''))"

definition label_text :: "string table_value \<Rightarrow> string" where
  "label_text l = (case l of Own s \<Rightarrow> s | Inherited m \<Rightarrow> inherited_text m)"

section \<open>The Fingerprinter: \<^verbatim>\<open>generateErrorId\<close> (lines 63-73)\<close>

text \<open>\<^verbatim>\<open>stack?.split('\n')[0]\<close>: nothing to do on \<open>undefined\<close> and \<open>null\<close>; the first line
  of a string; any other value has no \<open>split\<close> method, and calling it throws.\<close>

fun first_stack_line :: "jsval \<Rightarrow> error + jsval" where
  "first_stack_line VUndef = Inr VUndef"
| "first_stack_line VNull = Inr VUndef"
| "first_stack_line (VStr s) = Inr (case split_lines s of [] \<Rightarrow> VUndef | l # ls \<Rightarrow> VStr l)"
| "first_stack_line v = Inl TypeError"

text \<open>The object \<open>errorData\<close> of lines 64-69.\<close>

definition errorData :: "jsval \<Rightarrow> jsval \<Rightarrow> error + jsval" where
  "errorData err req =
     (case get_prop err ''message'' of
        Inl e \<Rightarrow> Inl e
      | Inr message \<Rightarrow>
          (case get_prop err ''stack'' of
             Inl e \<Rightarrow> Inl e
           | Inr stack \<Rightarrow>
               (case first_stack_line stack of
                  Inl e \<Rightarrow> Inl e
                | Inr line \<Rightarrow>
                    Inr (VObj
                      [(''message'', message),
                       (''stack'', or_else line (VStr [])),
                       (''url'', or_else (get_opt req ''originalUrl'')
                                  (or_else (get_opt req ''url'') (VStr []))),
                       (''method'', or_else (get_opt req ''method'') (VStr []))]))))"

text \<open>The hash \<^verbatim>\<open>createHash('md5')...digest('hex')\<close> of Node's \<open>crypto\<close> library is the
  parameter \<open>md5\<close>: it maps a text to its digest in hexadecimal.\<close>

definition generateErrorId :: "(string \<Rightarrow> string) \<Rightarrow> jsval \<Rightarrow> jsval \<Rightarrow> error + string" where
  "generateErrorId md5 err req =
     (case errorData err req of
        Inl e \<Rightarrow> Inl e
      | Inr d \<Rightarrow>
          (case JSON_stringify d of
             None \<Rightarrow> Inl TypeError
           | Some text \<Rightarrow> Inr (''ERR-'' @ toUpperCase (substring0 (md5 text) 8))))"

section \<open>The Metrics Snapshot: \<^verbatim>\<open>getPerformanceMetrics\<close> (lines 102-120)\<close>

text \<open>
  What the engine reads from its process is the record \<open>env\<close>: the clock, the runtime's
  identification, and the resource counters. The counters of memory (bytes) and of CPU
  time (microseconds) are non-negative integers; the uptime is given rounded to seconds
  and the elapsed time of line 252 as \<open>toFixed(2)\<close> prints it.
\<close>

record env =
  timestamp_iso :: string
  process_version :: string
  process_platform :: string
  process_arch :: string
  NODE_ENV :: "string option"
  mem_rss :: nat
  mem_heapUsed :: nat
  mem_heapTotal :: nat
  mem_external :: nat
  cpu_user :: nat
  cpu_system :: nat
  uptime_rounded :: nat
  generation_time :: string

text \<open>\<^verbatim>\<open>Math.round(x / d)\<close> on non-negative integers: the nearest integer, a half going up.\<close>

definition round_div :: "nat \<Rightarrow> nat \<Rightarrow> nat" where
  "round_div x d = (2 * x + d) div (2 * d)"

record metrics =
  memory_rss :: string
  memory_heapUsed :: string
  memory_heapTotal :: string
  memory_external :: string
  cpu_user_text :: string
  cpu_system_text :: string
  uptime_text :: string

definition getPerformanceMetrics :: "env \<Rightarrow> metrics" where
  "getPerformanceMetrics e =
     \<lparr> memory_rss = show_nat (round_div (mem_rss e) (1024 * 1024)) @ ''MB'',
       memory_heapUsed = show_nat (round_div (mem_heapUsed e) (1024 * 1024)) @ ''MB'',
       memory_heapTotal = show_nat (round_div (mem_heapTotal e) (1024 * 1024)) @ ''MB'',
       memory_external = show_nat (round_div (mem_external e) (1024 * 1024)) @ ''MB'',
       cpu_user_text = show_nat (round_div (cpu_user e) 1000) @ ''ms'',
       cpu_system_text = show_nat (round_div (cpu_system e) 1000) @ ''ms'',
       uptime_text = show_nat (uptime_rounded e) @ ''s'' \<rparr>"

section \<open>The Report Builder: \<^verbatim>\<open>errorToMarkdown\<close> (lines 138-261)\<close>

text \<open>
  The report is the array \<open>md\<close> of lines, joined by line feeds at the end. The model
  builds it section by section, in the order of the pushes of the source; a section that
  throws ends the call with its error.

  \<^verbatim>\<open>Array.prototype.join\<close> writes an element that is \<open>undefined\<close> or \<open>null\<close> as the empty
  string: \<open>pushed\<close> is the text an element contributes.
\<close>

definition pushed :: "jsval \<Rightarrow> string" where
  "pushed v = (if v = VUndef \<or> v = VNull then [] else toString v)"

definition pushed_text :: "string option \<Rightarrow> string" where
  "pushed_text t = (case t of None \<Rightarrow> [] | Some s \<Rightarrow> s)"

fun sections :: "(error + string list) list \<Rightarrow> error + string list" where
  "sections [] = Inr []"
| "sections (s # ss) =
     (case s of
        Inl e \<Rightarrow> Inl e
      | Inr ls \<Rightarrow> (case sections ss of Inl e \<Rightarrow> Inl e | Inr ms \<Rightarrow> Inr (ls @ ms)))"

text \<open>Lines 143-152: the error ID, the timestamp, the title.\<close>

definition header_section ::
  "(string \<Rightarrow> string) \<Rightarrow> env \<Rightarrow> Theme table_value \<Rightarrow> config \<Rightarrow> jsval \<Rightarrow> jsval \<Rightarrow> error + string list" where
  "header_section md5 e th cfg err req =
     (case (if generateErrorId_flag cfg
            then (case generateErrorId md5 err req of Inl x \<Rightarrow> Inl x | Inr i \<Rightarrow> Inr (VStr i))
            else Inr VNull) of
        Inl x \<Rightarrow> Inl x
      | Inr errorId \<Rightarrow>
          (let timestamp = (if includeTimestamp cfg then VStr (timestamp_iso e) else VNull)
           in Inr ([pushed (token title th)]
                   @ (if truthy errorId then [''**Error ID:** `'' @ toString errorId @ ''`''] else [])
                   @ (if truthy timestamp then [''**Timestamp:** `'' @ toString timestamp @ ''`''] else [])
                   @ [[]])))"

text \<open>Lines 155-156.\<close>

definition severity_section :: "config \<Rightarrow> string list" where
  "severity_section cfg = [''**Severity:** '' @ label_text (formatSeverity (severity cfg)), []]"

text \<open>Lines 159-161. The icon of a theme is a string, or \<open>undefined\<close> on an inherited
  member: its conversion does not throw.\<close>

definition message_section :: "Theme table_value \<Rightarrow> jsval \<Rightarrow> error + string list" where
  "message_section th err =
     (case get_prop err ''message'' of
        Inl x \<Rightarrow> Inl x
      | Inr message \<Rightarrow>
          (case template (or_else message (VStr ''Unknown Error'')) of
             Inl x \<Rightarrow> Inl x
           | Inr shown \<Rightarrow>
               Inr [toString (token errorIcon th) @ '' **Error Message:**'',
                    ''```'' @ [CHR 0x0A] @ shown @ [CHR 0x0A] @ ''```'',
                    []]))"

text \<open>Lines 164-167.\<close>

definition type_section :: "jsval \<Rightarrow> error + string list" where
  "type_section err =
     (case get_prop err ''name'' of
        Inl x \<Rightarrow> Inl x
      | Inr name \<Rightarrow>
          if truthy name \<and> name \<noteq> VStr ''Error''
          then (case template name of
                  Inl x \<Rightarrow> Inl x
                | Inr shown \<Rightarrow> Inr [''**Error Type:** `'' @ shown @ ''`'', []])
          else Inr [])"

text \<open>Lines 170-173.\<close>

definition code_section :: "jsval \<Rightarrow> error + string list" where
  "code_section err =
     (case get_prop err ''code'' of
        Inl x \<Rightarrow> Inl x
      | Inr code \<Rightarrow>
          if truthy code
          then (case template code of
                  Inl x \<Rightarrow> Inl x
                | Inr shown \<Rightarrow> Inr [''**Error Code:** `'' @ shown @ ''`'', []])
          else Inr [])"

text \<open>\<^verbatim>\<open>v.split('\n')\<close> on a truthy value: a string has the method; on any other value the
  call throws.\<close>

fun split_value :: "jsval \<Rightarrow> error + string list" where
  "split_value (VStr s) = Inr (split_lines s)"
| "split_value v = Inl TypeError"

text \<open>Lines 177-179: the lines of the stack that are shown.\<close>

definition stackLines :: "config \<Rightarrow> jsval \<Rightarrow> error + string list" where
  "stackLines cfg stack =
     (case split_value (or_else stack (VStr ''No stack trace available'')) of
        Inl x \<Rightarrow> Inl x
      | Inr ls \<Rightarrow> Inr (slice0 ls (maxStackLines cfg)))"

text \<open>Line 182: the condition of the truncation marker.\<close>

definition stack_truncated :: "config \<Rightarrow> jsval \<Rightarrow> error + bool" where
  "stack_truncated cfg stack =
     (if truthy stack
      then (case split_value stack of
              Inl x \<Rightarrow> Inl x
            | Inr ls \<Rightarrow> Inr (int (length ls) > maxStackLines cfg))
      else Inr False)"

text \<open>Lines 176-186.\<close>

definition stack_section :: "Theme table_value \<Rightarrow> config \<Rightarrow> jsval \<Rightarrow> error + string list" where
  "stack_section th cfg err =
     (case get_prop err ''stack'' of
        Inl x \<Rightarrow> Inl x
      | Inr stack \<Rightarrow>
          (case stackLines cfg stack of
             Inl x \<Rightarrow> Inl x
           | Inr shown \<Rightarrow>
               (case stack_truncated cfg stack of
                  Inl x \<Rightarrow> Inl x
                | Inr truncated \<Rightarrow>
                    Inr ([toString (token stackIcon th) @ '' **Stack Trace:**'',
                          ''```'',
                          join [CHR 0x0A] shown]
                         @ (if truncated then [''... [TRUNCATED]''] else [])
                         @ [''```'', []]))))"

text \<open>\<^verbatim>\<open>Object.keys(v).length > 0\<close> on a truthy value: an object with a property, an array
  with an element, a string with a character.\<close>

fun has_keys :: "jsval \<Rightarrow> bool" where
  "has_keys (VObj ms) = (ms \<noteq> [])"
| "has_keys (VArr xs) = (xs \<noteq> [])"
| "has_keys (VStr s) = (s \<noteq> [])"
| "has_keys v = False"

text \<open>A fenced block of lines 199-224: what is pushed for a value already cleaned.\<close>

definition json_block :: "string list \<Rightarrow> error + jsval \<Rightarrow> error + string list" where
  "json_block label cleaned =
     (case cleaned of
        Inl x \<Rightarrow> Inl x
      | Inr v \<Rightarrow> Inr (label @ [''```json'', pushed_text (JSON_stringify_pretty v), ''```'']))"

text \<open>Lines 199-204: the body goes through the Redactor with the configured deny-list and
  the configured \<open>maxBodySize\<close>.\<close>

definition body_block :: "config \<Rightarrow> jsval \<Rightarrow> error + string list" where
  "body_block cfg req =
     (let body = get_opt req ''body''
      in if truthy body \<and> has_keys body
         then json_block [''- **Body:**''] (cleanObject body (redact cfg) (maxBodySize cfg))
         else Inr [])"

text \<open>Lines 206-211: the call \<^verbatim>\<open>cleanObject(req.query, config.redact)\<close> leaves the third
  argument out, so \<open>maxSize\<close> is the default of line 78, 1000.\<close>

definition query_block :: "config \<Rightarrow> jsval \<Rightarrow> error + string list" where
  "query_block cfg req =
     (let query = get_opt req ''query''
      in if truthy query \<and> has_keys query
         then json_block [''- **Query Parameters:**''] (cleanObject query (redact cfg) 1000)
         else Inr [])"

text \<open>Lines 213-218.\<close>

definition params_block :: "jsval \<Rightarrow> error + string list" where
  "params_block req =
     (let params = get_opt req ''params''
      in if truthy params \<and> has_keys params
         then json_block [''- **Route Parameters:**''] (Inr params)
         else Inr [])"

text \<open>Lines 221-225.\<close>

definition headers_block :: "config \<Rightarrow> jsval \<Rightarrow> error + string list" where
  "headers_block cfg req =
     (case json_block [''- **Headers:**''] (cleanObject (get_opt req ''headers'') (redact cfg) 1000) of
        Inl x \<Rightarrow> Inl x
      | Inr ls \<Rightarrow> Inr (ls @ [[]]))"

text \<open>Lines 190-193. Inside \<^verbatim>\<open>if (req)\<close> the request is truthy, so reading its properties
  does not throw: \<open>get_opt\<close> gives them. Their conversion to text can.\<close>

definition request_lines :: "Theme table_value \<Rightarrow> jsval \<Rightarrow> error + string list" where
  "request_lines th req =
     (case template (get_opt req ''method'') of
        Inl x \<Rightarrow> Inl x
      | Inr method \<Rightarrow>
          (case template (or_else (get_opt req ''originalUrl'') (get_opt req ''url'')) of
             Inl x \<Rightarrow> Inl x
           | Inr url \<Rightarrow>
               (case template (or_else (get_opt req ''ip'')
                        (or_else (get_opt (get_opt req ''connection'') ''remoteAddress'')
                           (VStr ''unknown''))) of
                  Inl x \<Rightarrow> Inl x
                | Inr ip \<Rightarrow>
                    Inr [toString (token requestIcon th) @ '' **Request Details:**'',
                         ''- **Method:** `'' @ method @ ''`'',
                         ''- **URL:** `'' @ url @ ''`'',
                         ''- **IP:** `'' @ ip @ ''`''])))"

text \<open>Lines 195-197.\<close>

definition user_agent_line :: "config \<Rightarrow> jsval \<Rightarrow> error + string list" where
  "user_agent_line cfg req =
     (if includeUserAgent cfg \<and> truthy (get_opt (get_opt req ''headers'') ''user-agent'')
      then (case template (get_opt (get_opt req ''headers'') ''user-agent'') of
              Inl x \<Rightarrow> Inl x
            | Inr agent \<Rightarrow> Inr [''- **User Agent:** `'' @ agent @ ''`''])
      else Inr [])"

text \<open>Lines 189-226.\<close>

definition request_section :: "Theme table_value \<Rightarrow> config \<Rightarrow> jsval \<Rightarrow> error + string list" where
  "request_section th cfg req =
     (if truthy req
      then sections
        [request_lines th req,
         user_agent_line cfg req,
         body_block cfg req,
         query_block cfg req,
         params_block req,
         headers_block cfg req]
      else Inr [])"

text \<open>Lines 229-247.\<close>

definition environment_section :: "Theme table_value \<Rightarrow> config \<Rightarrow> env \<Rightarrow> string list" where
  "environment_section th cfg e =
     (if includeEnvironment cfg
      then [toString (token envIcon th) @ '' **Environment:**'',
            ''- **Node.js Version:** `'' @ process_version e @ ''`'',
            ''- **Platform:** `'' @ process_platform e @ '' '' @ process_arch e @ ''`'',
            ''- **Environment:** `''
              @ (case NODE_ENV e of None \<Rightarrow> ''development''
                 | Some v \<Rightarrow> if v = [] then ''development'' else v)
              @ ''`'']
           @ (case appVersion cfg of
                None \<Rightarrow> []
              | Some v \<Rightarrow> if v = [] then [] else [''- **App Version:** `'' @ v @ ''`''])
           @ (if includeMemoryUsage cfg
              then (let perf = getPerformanceMetrics e
                    in [''- **Memory Usage:** RSS: `'' @ memory_rss perf @ ''`, Heap: `''
                          @ memory_heapUsed perf @ ''/'' @ memory_heapTotal perf @ ''`'',
                        ''- **CPU Usage:** User: `'' @ cpu_user_text perf @ ''`, System: `''
                          @ cpu_system_text perf @ ''`'',
                        ''- **Process Uptime:** `'' @ uptime_text perf @ ''`''])
              else [])
           @ [[]]
      else [])"

text \<open>Lines 250-254.\<close>

definition performance_section :: "config \<Rightarrow> env \<Rightarrow> string list" where
  "performance_section cfg e =
     (if includePerformance cfg
      then [emoji_zap @ '' **Report Generation Time:** `'' @ generation_time e @ ''ms`'', []]
      else [])"

text \<open>Lines 257-258.\<close>

definition footer_section :: "Theme table_value \<Rightarrow> string list" where
  "footer_section th =
     [pushed (token separator th),
      ''*Generated by [error-to-md](https://github.com/imankii01/error-to-md) '' @ emoji_rocket @ ''*'']"

definition errorToMarkdown ::
  "(string \<Rightarrow> string) \<Rightarrow> env \<Rightarrow> jsval \<Rightarrow> jsval \<Rightarrow> options \<Rightarrow> error + string" where
  "errorToMarkdown md5 e err req opts =
     (let cfg = merge_config defaultOptions opts;
          th = resolveTheme (theme cfg)
      in case sections
           [header_section md5 e th cfg err req,
            Inr (severity_section cfg),
            message_section th err,
            type_section err,
            code_section err,
            stack_section th cfg err,
            request_section th cfg req,
            Inr (environment_section th cfg e),
            Inr (performance_section cfg e),
            Inr (footer_section th)] of
           Inl x \<Rightarrow> Inl x
         | Inr md \<Rightarrow> Inr (join [CHR 0x0A] md))"

section \<open>Objects in a store\<close>

text \<open>
  The trees above are values: they cannot tell whether a call changed an object of its
  caller, or returned one. For that question objects live in a store and are referred to
  by address. A store is the list of its objects (the address is the position); a cell
  holds the elements of an array or the properties of an object, each a primitive or the
  address of another object. Creating an object appends a cell.
\<close>

datatype ref_val =
    RUndef
  | RNull
  | RBool bool
  | RNum int
  | RStr string
  | RRef nat

datatype cell = CArr "ref_val list" | CObj "(string \<times> ref_val) list"

type_synonym store = "cell list"

text \<open>The replacer of lines 81-89 on a stored value.\<close>

definition replacer_ref :: "string list \<Rightarrow> string \<Rightarrow> ref_val \<Rightarrow> ref_val" where
  "replacer_ref redactKeys key value =
     (if list_ex (\<lambda>redactKey. str_includes (toLowerCase key) (toLowerCase redactKey)) redactKeys
      then RStr ''[REDACTED]''
      else value)"

text \<open>
  \<^verbatim>\<open>JSON.stringify(obj, replacer)\<close> on a stored object: it reads the store, passes every
  property through the replacer and descends into what the replacer returned. \<open>stack\<close>
  holds the objects that are being serialized; meeting one of them again is a cyclic
  structure, on which \<^verbatim>\<open>JSON.stringify\<close> throws a TypeError. An address beyond the store
  is the address of no object; no value of the language holds one, and the read ends with
  an error there. The result is the tree that is serialized. Nothing is written to the
  store.
\<close>

function read_replaced :: "store \<Rightarrow> string list \<Rightarrow> nat list \<Rightarrow> string \<Rightarrow> ref_val \<Rightarrow> error + jsval"
  and read_elems :: "store \<Rightarrow> string list \<Rightarrow> nat list \<Rightarrow> nat \<Rightarrow> ref_val list \<Rightarrow> error + jsval list"
  and read_members ::
    "store \<Rightarrow> string list \<Rightarrow> nat list \<Rightarrow> (string \<times> ref_val) list \<Rightarrow> error + (string \<times> jsval) list" where
  "read_replaced st redactKeys stack key value =
     (case replacer_ref redactKeys key value of
        RUndef \<Rightarrow> Inr VUndef
      | RNull \<Rightarrow> Inr VNull
      | RBool b \<Rightarrow> Inr (VBool b)
      | RNum n \<Rightarrow> Inr (VNum n)
      | RStr s \<Rightarrow> Inr (VStr s)
      | RRef a \<Rightarrow>
          if a \<in> set stack \<or> \<not> a < length st then Inl TypeError
          else (case st ! a of
                  CArr xs \<Rightarrow>
                    (case read_elems st redactKeys (a # stack) 0 xs of
                       Inl e \<Rightarrow> Inl e | Inr ys \<Rightarrow> Inr (VArr ys))
                | CObj ms \<Rightarrow>
                    (case read_members st redactKeys (a # stack) ms of
                       Inl e \<Rightarrow> Inl e | Inr ns \<Rightarrow> Inr (VObj ns))))"
| "read_elems st redactKeys stack i [] = Inr []"
| "read_elems st redactKeys stack i (x # xs) =
     (case read_replaced st redactKeys stack (show_nat i) x of
        Inl e \<Rightarrow> Inl e
      | Inr y \<Rightarrow>
          (case read_elems st redactKeys stack (Suc i) xs of
             Inl e \<Rightarrow> Inl e | Inr ys \<Rightarrow> Inr (y # ys)))"
| "read_members st redactKeys stack [] = Inr []"
| "read_members st redactKeys stack ((k, v) # ms) =
     (case read_replaced st redactKeys stack k v of
        Inl e \<Rightarrow> Inl e
      | Inr y \<Rightarrow>
          (case read_members st redactKeys stack ms of
             Inl e \<Rightarrow> Inl e | Inr ns \<Rightarrow> Inr ((k, y) # ns)))"
  by pat_completeness auto

termination
  apply (relation "measures
     [(\<lambda>a. case a of
         Inl (st, _, stack, _, _) \<Rightarrow> card ({..<length st} - set stack)
       | Inr (Inl (st, _, stack, _, _)) \<Rightarrow> card ({..<length st} - set stack)
       | Inr (Inr (st, _, stack, _)) \<Rightarrow> card ({..<length st} - set stack)),
      (\<lambda>a. case a of
         Inl _ \<Rightarrow> 0
       | Inr (Inl (_, _, _, _, xs)) \<Rightarrow> Suc (length xs)
       | Inr (Inr (_, _, _, ms)) \<Rightarrow> Suc (length ms))]")
  apply (auto intro!: diff_less simp: card_gt_0_iff)
  done

text \<open>\<^verbatim>\<open>JSON.parse\<close> builds the tree it reads from new objects.\<close>

fun alloc :: "jsval \<Rightarrow> store \<Rightarrow> ref_val \<times> store"
  and alloc_elems :: "jsval list \<Rightarrow> store \<Rightarrow> ref_val list \<times> store"
  and alloc_members :: "(string \<times> jsval) list \<Rightarrow> store \<Rightarrow> (string \<times> ref_val) list \<times> store" where
  "alloc VUndef st = (RUndef, st)"
| "alloc VNull st = (RNull, st)"
| "alloc (VBool b) st = (RBool b, st)"
| "alloc (VNum n) st = (RNum n, st)"
| "alloc (VStr s) st = (RStr s, st)"
| "alloc (VArr xs) st = (case alloc_elems xs st of (rs, st') \<Rightarrow> (RRef (length st'), st' @ [CArr rs]))"
| "alloc (VObj ms) st = (case alloc_members ms st of (rs, st') \<Rightarrow> (RRef (length st'), st' @ [CObj rs]))"
| "alloc_elems [] st = ([], st)"
| "alloc_elems (x # xs) st =
     (case alloc x st of (r, st') \<Rightarrow> (case alloc_elems xs st' of (rs, st'') \<Rightarrow> (r # rs, st'')))"
| "alloc_members [] st = ([], st)"
| "alloc_members ((k, v) # ms) st =
     (case alloc v st of (r, st') \<Rightarrow> (case alloc_members ms st' of (rs, st'') \<Rightarrow> ((k, r) # rs, st'')))"

text \<open>
  \<open>cleanObject\<close> (lines 78-97) on a stored value. An object is a reference; \<open>null\<close> and
  the primitives are returned as they are (line 79). The outcome is the returned value or
  the error thrown, together with the store after the call.
\<close>

definition cleanObject_store ::
  "store \<Rightarrow> ref_val \<Rightarrow> string list \<Rightarrow> int \<Rightarrow> (error + ref_val) \<times> store" where
  "cleanObject_store st obj redactKeys maxSize =
     (case obj of
        RRef a \<Rightarrow>
          (case read_replaced st redactKeys [] [] obj of
             Inl e \<Rightarrow> (Inl e, st)
           | Inr serialized \<Rightarrow>
               (case JSON_parse_stringify serialized of
                  Inl e \<Rightarrow> (Inl e, st)
                | Inr tree \<Rightarrow>
                    (case alloc tree st of
                       (cleaned, st') \<Rightarrow>
                         (case JSON_stringify_pretty tree of
                            None \<Rightarrow> (Inl TypeError, st')
                          | Some jsonString \<Rightarrow>
                              if int (length jsonString) > maxSize then
                                (case JSON_stringify tree of
                                   None \<Rightarrow> (Inl TypeError, st')
                                 | Some compact \<Rightarrow>
                                     (Inr (RStr (substring0 compact maxSize @ ''... [TRUNCATED]'')), st'))
                              else (Inr cleaned, st')))))
      | v \<Rightarrow> (Inr v, st))"

text \<open>The addresses a value or a cell refers to.\<close>

fun refs_of_val :: "ref_val \<Rightarrow> nat set" where
  "refs_of_val (RRef a) = {a}"
| "refs_of_val v = {}"

fun refs_of :: "cell \<Rightarrow> nat set" where
  "refs_of (CArr xs) = (\<Union>x\<in>set xs. refs_of_val x)"
| "refs_of (CObj ms) = (\<Union>p\<in>set ms. refs_of_val (snd p))"

text \<open>
  \<open>fresh_extension st st' roots\<close>: the store \<open>st'\<close> is \<open>st\<close> with new cells after it, the
  addresses \<open>roots\<close> are new, and the new cells refer to new cells only.
\<close>

definition fresh_extension :: "store \<Rightarrow> store \<Rightarrow> nat set \<Rightarrow> bool" where
  "fresh_extension st st' roots \<longleftrightarrow>
     take (length st) st' = st
     \<and> roots \<subseteq> {length st..<length st'}
     \<and> (\<forall>c\<in>set (drop (length st) st'). refs_of c \<subseteq> {length st..<length st'})"

section \<open>Notions used by the properties\<close>

text \<open>The condition of the replacer: the key is on the deny-list.\<close>

definition denied :: "string list \<Rightarrow> string \<Rightarrow> bool" where
  "denied redactKeys key =
     list_ex (\<lambda>redactKey. str_includes (toLowerCase key) (toLowerCase redactKey)) redactKeys"

text \<open>
  The value found in a tree by following a path of keys: a step into an object takes the
  property of that name, a step into an array takes the element whose index, in decimal,
  is the step.
\<close>

fun elem_at :: "nat \<Rightarrow> jsval list \<Rightarrow> string \<Rightarrow> jsval option" where
  "elem_at i [] k = None"
| "elem_at i (x # xs) k = (if show_nat i = k then Some x else elem_at (Suc i) xs k)"

fun at_path :: "jsval \<Rightarrow> string list \<Rightarrow> jsval option" where
  "at_path v [] = Some v"
| "at_path (VObj ms) (k # p) = (case map_of ms k of None \<Rightarrow> None | Some x \<Rightarrow> at_path x p)"
| "at_path (VArr xs) (k # p) = (case elem_at 0 xs k of None \<Rightarrow> None | Some x \<Rightarrow> at_path x p)"
| "at_path v (k # p) = None"

text \<open>
  Two trees agree outside the denied keys when they differ at most in the values held
  under denied keys: \<open>agree redactKeys key v w\<close> for the values \<open>v\<close> and \<open>w\<close> of a property
  \<open>key\<close>.
\<close>

fun agree :: "string list \<Rightarrow> string \<Rightarrow> jsval \<Rightarrow> jsval \<Rightarrow> bool"
  and agree_elems :: "string list \<Rightarrow> nat \<Rightarrow> jsval list \<Rightarrow> jsval list \<Rightarrow> bool"
  and agree_members :: "string list \<Rightarrow> (string \<times> jsval) list \<Rightarrow> (string \<times> jsval) list \<Rightarrow> bool" where
  "agree rk key (VArr xs) (VArr ys) = (denied rk key \<or> agree_elems rk 0 xs ys)"
| "agree rk key (VObj ms) (VObj ns) = (denied rk key \<or> agree_members rk ms ns)"
| "agree rk key v w = (denied rk key \<or> v = w)"
| "agree_elems rk i [] ys = (ys = [])"
| "agree_elems rk i (x # xs) [] = False"
| "agree_elems rk i (x # xs) (y # ys) = (agree rk (show_nat i) x y \<and> agree_elems rk (Suc i) xs ys)"
| "agree_members rk [] ns = (ns = [])"
| "agree_members rk ((k, v) # ms) [] = False"
| "agree_members rk ((k, v) # ms) ((k', w) # ns) =
     (k = k' \<and> agree rk k v w \<and> agree_members rk ms ns)"

text \<open>A value occurs in a tree when it is the tree or occurs in one of its elements or
  property values.\<close>

fun occurs :: "jsval \<Rightarrow> jsval \<Rightarrow> bool"
  and occurs_elems :: "jsval \<Rightarrow> jsval list \<Rightarrow> bool"
  and occurs_members :: "jsval \<Rightarrow> (string \<times> jsval) list \<Rightarrow> bool" where
  "occurs x (VArr xs) = (x = VArr xs \<or> occurs_elems x xs)"
| "occurs x (VObj ms) = (x = VObj ms \<or> occurs_members x ms)"
| "occurs x v = (x = v)"
| "occurs_elems x [] = False"
| "occurs_elems x (y # ys) = (occurs x y \<or> occurs_elems x ys)"
| "occurs_members x [] = False"
| "occurs_members x ((k, v) # ms) = (occurs x v \<or> occurs_members x ms)"

text \<open>
  A process and a digest function to run the engine on. The digest is not MD5: it is a
  checksum of 32 bits over the characters of the text, written in hexadecimal four times.
\<close>

definition sample_env :: env where
  "sample_env =
     \<lparr> timestamp_iso = ''2024-01-01T00:00:00.000Z'',
       process_version = ''v20.0.0'',
       process_platform = ''linux'',
       process_arch = ''x64'',
       NODE_ENV = None,
       mem_rss = 50000000,
       mem_heapUsed = 10000000,
       mem_heapTotal = 20000000,
       mem_external = 1000000,
       cpu_user = 123456,
       cpu_system = 6500,
       uptime_rounded = 12,
       generation_time = ''0.42'' \<rparr>"

definition checksum :: "string \<Rightarrow> nat" where
  "checksum s = fold (\<lambda>c h. (h * 33 + of_char c) mod 4294967296) s 5381"

definition hex8 :: "nat \<Rightarrow> string" where
  "hex8 n = map (\<lambda>i. hex_char (n div 16 ^ i mod 16)) [7, 6, 5, 4, 3, 2, 1, 0]"

definition sample_md5 :: "string \<Rightarrow> string" where
  "sample_md5 s = hex8 (checksum s) @ hex8 (checksum s) @ hex8 (checksum s) @ hex8 (checksum s)"

section \<open>Properties\<close>

subsection \<open>Evaluation rules and basic facts\<close>

declare apply_replacer.simps [simp del]

declare show_nat.simps [simp del]

lemmas eval_simps =
  cleanObject_def JSON_parse_stringify_def JSON_stringify_pretty_def apply_replacer.simps
  show_nat.simps
  replacer_def toLowerCase_def lower_char_def quote_def quote_char_def hex_char_def
  wrap_pretty_def spaces_def show_int_def digit_char_def substring0_def char_of_def
  bit_Suc_0_iff

lemma replacer_denied:
  "replacer rk key v = (if denied rk key then VStr ''[REDACTED]'' else v)"
  by (simp add: replacer_def denied_def)

lemma denied_iff:
  "denied rk key \<longleftrightarrow> (\<exists>e\<in>set rk. str_includes (toLowerCase key) (toLowerCase e))"
  by (simp add: denied_def list_ex_iff)

lemma startsWith_Nil [simp]: "startsWith s [] = True"
  by (cases s) simp_all

lemma str_includes_Nil [simp]: "str_includes s [] = True"
  by (cases s) simp_all

lemma toLowerCase_Nil_iff [simp]: "toLowerCase e = [] \<longleftrightarrow> e = []"
  by (simp add: toLowerCase_def)

lemma denied_root: "denied rk [] \<longleftrightarrow> [] \<in> set rk"
  by (auto simp: denied_iff toLowerCase_def)

lemma denied_by_empty: "[] \<in> set rk \<Longrightarrow> denied rk key"
  by (auto simp: denied_iff intro!: bexI[where x="[]"] simp: toLowerCase_def)

lemma apply_replacer_denied: "denied rk key \<Longrightarrow> apply_replacer rk key v = VStr ''[REDACTED]''"
  by (simp add: apply_replacer.simps replacer_denied)

lemma apply_replacer_kept:
  "\<not> denied rk key \<Longrightarrow> apply_replacer rk key v =
     (case v of VArr xs \<Rightarrow> VArr (replace_elems rk 0 xs) | VObj ms \<Rightarrow> VObj (replace_members rk ms) | w \<Rightarrow> w)"
  by (simp add: apply_replacer.simps replacer_denied)

lemma JSON_stringify_None_iff [simp]: "JSON_stringify v = None \<longleftrightarrow> v = VUndef"
  by (cases v) simp_all

lemma pretty_None_iff [simp]: "pretty ind v = None \<longleftrightarrow> v = VUndef"
  by (cases v) simp_all

lemma reparse_Undef_iff [simp]: "reparse v = VUndef \<longleftrightarrow> v = VUndef"
  by (cases v) simp_all

lemma join_length:
  "length (join sep xs) = sum_list (map length xs) + (length xs - 1) * length sep"
  by (induction sep xs rule: join.induct) simp_all

lemma join_length_mono:
  assumes "list_all2 (\<lambda>c p. length c \<le> length p) cs ps" and "length sep \<le> length sep'"
  shows "length (join sep cs) \<le> length (join sep' ps)"
proof -
  have len: "length cs = length ps" using assms(1) by (rule list_all2_lengthD)
  have "sum_list (map length cs) \<le> sum_list (map length ps)"
    using assms(1) by (induction rule: list_all2_induct) auto
  moreover have "(length cs - 1) * length sep \<le> (length ps - 1) * length sep'"
    using len assms(2) by (simp add: mult_le_mono)
  ultimately show ?thesis by (simp add: join_length)
qed

lemma wrap_pretty_length:
  "length (join '','' cs) \<le> length (join ('','' @ [CHR 0x0A] @ spaces (ind + 2)) ps)
   \<Longrightarrow> (cs = [] \<longleftrightarrow> ps = [])
   \<Longrightarrow> length (opn @ join '','' cs @ cls) \<le> length (wrap_pretty opn cls ind ps)"
  by (auto simp: wrap_pretty_def)

lemma pretty_ge_compact:
  "\<And>c p. JSON_stringify v = Some c \<Longrightarrow> pretty ind v = Some p \<Longrightarrow> length c \<le> length p"
  "list_all2 (\<lambda>c p. length c \<le> length p) (stringify_elems xs) (pretty_elems ind xs)"
  "list_all2 (\<lambda>c p. length c \<le> length p) (stringify_members ms) (pretty_members ind ms)"
proof (induction v and xs and ms arbitrary: ind and ind and ind
         rule: JSON_stringify_stringify_elems_stringify_members.induct)
  case (6 xs)
  have a: "list_all2 (\<lambda>c p. length c \<le> length p) (stringify_elems xs) (pretty_elems (ind + 2) xs)"
    by (rule 6)
  then have e: "(stringify_elems xs = []) = (pretty_elems (ind + 2) xs = [])"
    by (auto dest: list_all2_lengthD)
  have "length (join '','' (stringify_elems xs))
        \<le> length (join ('','' @ [CHR 0x0A] @ spaces (ind + 2)) (pretty_elems (ind + 2) xs))"
    by (rule join_length_mono[OF a]) simp
  from wrap_pretty_length[OF this e, of "''[''" "'']''"] 6(2,3) show ?case by auto
next
  case (7 ms)
  have a: "list_all2 (\<lambda>c p. length c \<le> length p) (stringify_members ms) (pretty_members (ind + 2) ms)"
    by (rule 7)
  then have e: "(stringify_members ms = []) = (pretty_members (ind + 2) ms = [])"
    by (auto dest: list_all2_lengthD)
  have "length (join '','' (stringify_members ms))
        \<le> length (join ('','' @ [CHR 0x0A] @ spaces (ind + 2)) (pretty_members (ind + 2) ms))"
    by (rule join_length_mono[OF a]) simp
  from wrap_pretty_length[OF this e, of "''{''" "''}''"] 7(2,3) show ?case by auto
next
  case (9 x xs)
  have "length (case JSON_stringify x of None \<Rightarrow> ''null'' | Some s \<Rightarrow> s)
        \<le> length (case pretty ind x of None \<Rightarrow> ''null'' | Some s \<Rightarrow> s)"
  proof (cases "x = VUndef")
    case True
    then show ?thesis by simp
  next
    case False
    then obtain c p where cp: "JSON_stringify x = Some c" "pretty ind x = Some p"
      by (meson JSON_stringify_None_iff pretty_None_iff option.exhaust)
    with 9(1) show ?thesis by simp
  qed
  with 9(2) show ?case by simp
next
  case (11 k v ms)
  show ?case
  proof (cases "v = VUndef")
    case True
    with 11(2) show ?thesis by simp
  next
    case False
    then obtain c p where cp: "JSON_stringify v = Some c" "pretty ind v = Some p"
      by (meson JSON_stringify_None_iff pretty_None_iff option.exhaust)
    with 11(1) have "length c \<le> length p" by simp
    with cp 11(3) show ?thesis by simp
  qed
qed simp_all

lemma pretty_ge_compact_top:
  assumes "JSON_stringify v = Some c"
  shows "\<exists>p. JSON_stringify_pretty v = Some p \<and> length c \<le> length p"
proof -
  from assms have "v \<noteq> VUndef" by auto
  then obtain p where p: "pretty 0 v = Some p"
    by (meson pretty_None_iff option.exhaust)
  with assms pretty_ge_compact(1) show ?thesis
    by (auto simp: JSON_stringify_pretty_def)
qed

lemma cleanObject_object:
  assumes "truthy obj" "typeof_object obj"
  shows "\<exists>cleaned compact jsonString.
           JSON_parse_stringify (apply_replacer rk [] obj) = Inr cleaned
         \<and> JSON_stringify cleaned = Some compact
         \<and> JSON_stringify_pretty cleaned = Some jsonString
         \<and> length compact \<le> length jsonString
         \<and> cleanObject obj rk maxSize =
             (if int (length jsonString) > maxSize
              then Inr (VStr (substring0 compact maxSize @ ''... [TRUNCATED]''))
              else Inr cleaned)"
proof -
  have nu: "apply_replacer rk [] obj \<noteq> VUndef"
    using assms by (cases obj) (auto simp: apply_replacer.simps replacer_denied)
  define cleaned where "cleaned = reparse (apply_replacer rk [] obj)"
  have c1: "JSON_parse_stringify (apply_replacer rk [] obj) = Inr cleaned"
    using nu by (simp add: JSON_parse_stringify_def cleaned_def)
  have "cleaned \<noteq> VUndef" using nu by (simp add: cleaned_def)
  then obtain compact where c2: "JSON_stringify cleaned = Some compact"
    by (meson JSON_stringify_None_iff option.exhaust)
  from pretty_ge_compact_top[OF c2] obtain jsonString where
    c3: "JSON_stringify_pretty cleaned = Some jsonString" "length compact \<le> length jsonString"
    by blast
  show ?thesis using assms c1 c2 c3 by (auto simp: cleanObject_def)
qed

lemma cleanObject_total: "\<exists>v. cleanObject obj rk maxSize = Inr v"
proof (cases "truthy obj \<and> typeof_object obj")
  case True
  then show ?thesis using cleanObject_object[of obj rk maxSize] by (auto split: if_splits)
next
  case False
  then show ?thesis by (auto simp: cleanObject_def)
qed

subsection \<open>Theme and severity lookup\<close>

lemma table_get_own: "map_of table name = Some x \<Longrightarrow> table_get table name = Some (Own x)"
  by (simp add: table_get_def)

lemma table_get_missing:
  "map_of table name = None \<Longrightarrow> name \<notin> set object_prototype_keys \<Longrightarrow> table_get table name = None"
  by (simp add: table_get_def)

lemma resolveTheme_own: "map_of themes name = Some t \<Longrightarrow> resolveTheme name = Own t"
  by (simp add: resolveTheme_def table_get_own)

lemma resolveTheme_fallback:
  "map_of themes name = None \<Longrightarrow> name \<notin> set object_prototype_keys \<Longrightarrow> resolveTheme name = Own github"
  by (simp add: resolveTheme_def table_get_missing)

lemma formatSeverity_own: "map_of severityMap sev = Some l \<Longrightarrow> formatSeverity sev = Own l"
  by (simp add: formatSeverity_def table_get_own)

lemma formatSeverity_fallback:
  "map_of severityMap sev = None \<Longrightarrow> sev \<notin> set object_prototype_keys
   \<Longrightarrow> formatSeverity sev = Own (emoji_cross @ '' ERROR'')"
  by (simp add: formatSeverity_def table_get_missing)

text \<open>
  C8. A theme name that is no theme resolves to the default theme \<open>github\<close>, as the
  absent name does. The code at the name \<open>constructor\<close>: the read \<^verbatim>\<open>themes['constructor']\<close>
  finds the member inherited from \<^verbatim>\<open>Object.prototype\<close>, which is truthy, so the fallback
  of line 140 is not taken; the resolved value is not the \<open>github\<close> theme and has no title.
\<close>

theorem resolveTheme_constructor:
  "resolveTheme ''constructor'' = Inherited ''constructor''
   \<and> resolveTheme ''constructor'' \<noteq> Own github
   \<and> token title (resolveTheme ''constructor'') = VUndef"
  by (simp add: resolveTheme_def table_get_def themes_def object_prototype_keys_def token_def)

text \<open>
  C9. A severity outside \<open>info\<close>, \<open>warning\<close>, \<open>error\<close>, \<open>critical\<close> gets the label of
  \<open>error\<close>. The code at the severity \<open>constructor\<close>: \<^verbatim>\<open>severityMap['constructor']\<close> is the
  inherited member, so the fallback of line 132 is not taken and the severity line shows
  the text of a function instead of the \<open>error\<close> label.
\<close>

theorem formatSeverity_constructor:
  "formatSeverity ''constructor'' = Inherited ''constructor''
   \<and> formatSeverity ''constructor'' \<noteq> formatSeverity ''error''
   \<and> severity_section (defaultOptions\<lparr>severity := ''constructor''\<rparr>)
       = [''**Severity:** function Object() { [native code] }'', []]"
  by (simp add: formatSeverity_def table_get_def severityMap_def object_prototype_keys_def
        severity_section_def label_text_def inherited_text_def defaultOptions_def)

subsection \<open>Truncation\<close>

text \<open>
  C3 (amended). For every object input whose redacted, un-pretty-printed serialization is
  longer than \<open>maxSize\<close>, \<open>cleanObject\<close> returns the first \<open>maxSize\<close> characters of that
  serialization (none when \<open>maxSize\<close> is negative) followed by the marker
  \<open>... [TRUNCATED]\<close>: a string of exactly \<open>maxSize\<close> plus the marker's length
  characters, ending with the marker.
\<close>

theorem cleanObject_truncation:
  assumes "truthy obj" and "typeof_object obj"
      and "JSON_parse_stringify (apply_replacer redactKeys [] obj) = Inr cleaned"
      and "JSON_stringify cleaned = Some compact"
      and "maxSize < int (length compact)"
  shows "cleanObject obj redactKeys maxSize
           = Inr (VStr (take (nat maxSize) compact @ ''... [TRUNCATED]''))
         \<and> length (take (nat maxSize) compact @ ''... [TRUNCATED]'')
           = nat maxSize + length ''... [TRUNCATED]''"
  using cleanObject_object[OF assms(1,2), of redactKeys maxSize] assms(3-5)
  by (auto simp: substring0_def)

text \<open>The object \<^verbatim>\<open>{data: "xxxxxxxxxxxxxxxxxxxx"}\<close> with \<open>maxSize = 10\<close>: the result is
  \<^verbatim>\<open>{"data":"x... [TRUNCATED]\<close>, of 25 characters.\<close>

theorem cleanObject_truncation_witness:
  "truthy (VObj [(''data'', VStr ''xxxxxxxxxxxxxxxxxxxx'')])
   \<and> typeof_object (VObj [(''data'', VStr ''xxxxxxxxxxxxxxxxxxxx'')])
   \<and> cleanObject (VObj [(''data'', VStr ''xxxxxxxxxxxxxxxxxxxx'')]) [''password''] 10
     = Inr (VStr (''{'' @ [CHR 0x22] @ ''data'' @ [CHR 0x22] @ '':'' @ [CHR 0x22] @ ''x... [TRUNCATED]''))
   \<and> length (''{'' @ [CHR 0x22] @ ''data'' @ [CHR 0x22] @ '':'' @ [CHR 0x22] @ ''x... [TRUNCATED]'') = 10 + 15"
  using cleanObject_truncation[of "VObj [(''data'', VStr ''xxxxxxxxxxxxxxxxxxxx'')]" "[''password'']"
      "VObj [(''data'', VStr ''xxxxxxxxxxxxxxxxxxxx'')]"
      "''{'' @ [CHR 0x22] @ ''data'' @ [CHR 0x22] @ '':'' @ [CHR 0x22] @ ''xxxxxxxxxxxxxxxxxxxx'' @ [CHR 0x22] @ ''}''" 10]
  by (simp add: eval_simps)

text \<open>
  The claim as the spec states it, for every object whose serialized size exceeds
  \<open>maxBodySize\<close>, fails in two ways. The serialization of
  \<^verbatim>\<open>{password: "xxxxxxxxxxxxxxxxxxxxxxxxxxxxxxxxxxxxxxxxxxxxxxxxxx"}\<close> has 65 characters, more
  than \<open>maxSize = 40\<close>, but after redaction it fits and the object is returned with no
  marker. The indented serialization of \<^verbatim>\<open>{a: 1}\<close>, which line 92 measures, has 12
  characters, more than \<open>maxSize = 10\<close>, but the compact one that is cut has only 7: the
  result has 22 characters, not 25.
\<close>

theorem cleanObject_truncation_counterexample:
  "JSON_stringify (VObj [(''password'', VStr ''xxxxxxxxxxxxxxxxxxxxxxxxxxxxxxxxxxxxxxxxxxxxxxxxxx'')])
     = Some (''{'' @ [CHR 0x22] @ ''password'' @ [CHR 0x22] @ '':'' @ [CHR 0x22]
             @ ''xxxxxxxxxxxxxxxxxxxxxxxxxxxxxxxxxxxxxxxxxxxxxxxxxx'' @ [CHR 0x22] @ ''}'')
   \<and> cleanObject (VObj [(''password'', VStr ''xxxxxxxxxxxxxxxxxxxxxxxxxxxxxxxxxxxxxxxxxxxxxxxxxx'')])
        [''password''] 40
     = Inr (VObj [(''password'', VStr ''[REDACTED]'')])
   \<and> JSON_stringify_pretty (VObj [(''a'', VNum 1)])
     = Some (''{'' @ [CHR 0x0A] @ ''  '' @ [CHR 0x22] @ ''a'' @ [CHR 0x22] @ '': 1'' @ [CHR 0x0A] @ ''}'')
   \<and> cleanObject (VObj [(''a'', VNum 1)]) [] 10
     = Inr (VStr (''{'' @ [CHR 0x22] @ ''a'' @ [CHR 0x22] @ '':1}... [TRUNCATED]''))"
  by (simp add: eval_simps)

subsection \<open>An empty entry on the deny-list\<close>

text \<open>
  C10 (amended). If the deny-list contains the empty string then, for every object input,
  \<open>cleanObject\<close> returns the string \<open>[REDACTED]\<close> when \<open>maxSize\<close> is at least 12, the
  length of that string in quotes; below 12 it returns the first \<open>maxSize\<close> characters of
  the quoted string followed by the truncation marker.
\<close>

theorem cleanObject_empty_entry:
  assumes "[] \<in> set redactKeys" and "truthy obj" and "typeof_object obj"
  shows "cleanObject obj redactKeys maxSize
           = Inr (VStr (if 12 \<le> maxSize then ''[REDACTED]''
                        else substring0 (quote ''[REDACTED]'') maxSize @ ''... [TRUNCATED]''))"
proof -
  have "apply_replacer redactKeys [] obj = VStr ''[REDACTED]''"
    using assms(1) by (simp add: apply_replacer_denied denied_by_empty)
  then show ?thesis using assms(2,3)
    by (simp add: cleanObject_def JSON_parse_stringify_def JSON_stringify_pretty_def quote_def
        quote_char_def)
qed

theorem cleanObject_empty_entry_witness:
  "[] \<in> set [''token'', []]
   \<and> truthy (VObj [(''name'', VStr ''John'')])
   \<and> typeof_object (VObj [(''name'', VStr ''John'')])
   \<and> cleanObject (VObj [(''name'', VStr ''John'')]) [''token'', []] 1000 = Inr (VStr ''[REDACTED]'')"
  using cleanObject_empty_entry[of "[''token'', []]" "VObj [(''name'', VStr ''John'')]" 1000]
  by simp

text \<open>With \<open>maxSize = 5\<close> the result is not \<open>[REDACTED]\<close> but \<^verbatim>\<open>"[RED... [TRUNCATED]\<close>.\<close>

theorem cleanObject_empty_entry_counterexample:
  "cleanObject (VObj [(''name'', VStr ''John'')]) [[]] 5
     = Inr (VStr ([CHR 0x22] @ ''[RED... [TRUNCATED]''))"
  by (simp add: eval_simps)

subsection \<open>Redaction\<close>

lemma apply_replacer_Undef_iff:
  "apply_replacer rk key v = VUndef \<longleftrightarrow> \<not> denied rk key \<and> v = VUndef"
  by (cases v) (auto simp: apply_replacer.simps replacer_denied)

lemma elem_at_cleaned:
  "elem_at i xs k = Some x \<Longrightarrow>
   elem_at i (reparse_elems (replace_elems rk i xs)) k
     = Some (if apply_replacer rk k x = VUndef then VNull else reparse (apply_replacer rk k x))"
  by (induction xs arbitrary: i) (auto split: if_splits)

lemma map_of_cleaned:
  "map_of ms k = Some x \<Longrightarrow> apply_replacer rk k x \<noteq> VUndef \<Longrightarrow>
   map_of (reparse_members (replace_members rk ms)) k = Some (reparse (apply_replacer rk k x))"
  by (induction ms) (auto split: if_splits)

lemma at_path_cleaned:
  assumes "at_path v (p @ [k]) = Some x" and "\<not> denied rk key"
      and "\<forall>s\<in>set p. \<not> denied rk s" and "denied rk k"
  shows "at_path (reparse (apply_replacer rk key v)) (p @ [k]) = Some (VStr ''[REDACTED]'')"
  using assms
proof (induction p arbitrary: v key)
  case Nil
  from Nil(1) consider ms where "v = VObj ms" "map_of ms k = Some x"
    | xs where "v = VArr xs" "elem_at 0 xs k = Some x"
    by (cases v) (auto split: option.splits)
  then show ?case
  proof cases
    case 1
    with Nil show ?thesis
      using map_of_cleaned[of ms k x rk]
      by (simp add: apply_replacer_kept apply_replacer_denied)
  next
    case 2
    with Nil show ?thesis
      using elem_at_cleaned[of 0 xs k x rk]
      by (simp add: apply_replacer_kept apply_replacer_denied)
  qed
next
  case (Cons s p)
  from Cons(2) consider ms y where "v = VObj ms" "map_of ms s = Some y" "at_path y (p @ [k]) = Some x"
    | xs y where "v = VArr xs" "elem_at 0 xs s = Some y" "at_path y (p @ [k]) = Some x"
    by (cases v) (auto split: option.splits)
  then show ?case
  proof cases
    case 1
    have ns: "\<not> denied rk s" using Cons(4) by simp
    have "apply_replacer rk s y \<noteq> VUndef"
      using 1(3) by (cases "p @ [k]") (auto simp: apply_replacer_Undef_iff)
    from map_of_cleaned[OF 1(2) this]
    have m: "map_of (reparse_members (replace_members rk ms)) s = Some (reparse (apply_replacer rk s y))" .
    have "at_path (reparse (apply_replacer rk s y)) (p @ [k]) = Some (VStr ''[REDACTED]'')"
      using Cons.IH[OF 1(3) ns] Cons(4,5) by simp
    with m 1(1) Cons(3) show ?thesis by (simp add: apply_replacer_kept)
  next
    case 2
    have ns: "\<not> denied rk s" using Cons(4) by simp
    have nu: "apply_replacer rk s y \<noteq> VUndef"
      using 2(3) by (cases "p @ [k]") (auto simp: apply_replacer_Undef_iff)
    from elem_at_cleaned[OF 2(2), of rk] nu
    have m: "elem_at 0 (reparse_elems (replace_elems rk 0 xs)) s = Some (reparse (apply_replacer rk s y))"
      by simp
    have "at_path (reparse (apply_replacer rk s y)) (p @ [k]) = Some (VStr ''[REDACTED]'')"
      using Cons.IH[OF 2(3) ns] Cons(4,5) by simp
    with m 2(1) Cons(3) show ?thesis by (simp add: apply_replacer_kept)
  qed
qed

lemma agree_apply_replacer:
  "agree rk key v w \<Longrightarrow> apply_replacer rk key v = apply_replacer rk key w"
  "agree_elems rk i xs ys \<Longrightarrow> replace_elems rk i xs = replace_elems rk i ys"
  "agree_members rk ms ns \<Longrightarrow> replace_members rk ms = replace_members rk ns"
  by (induction rk key v w and rk i xs ys and rk ms ns rule: agree_agree_elems_agree_members.induct)
     (auto simp: apply_replacer.simps replacer_denied)

lemma agree_root_shape:
  assumes "agree rk [] v w" and "[] \<notin> set rk"
  shows "(truthy v \<and> typeof_object v) = (truthy w \<and> typeof_object w)
         \<and> (\<not> (truthy v \<and> typeof_object v) \<longrightarrow> v = w)"
  using assms by (cases v; cases w) (auto simp: denied_root)

lemma agree_cleanObject:
  assumes "agree rk [] v w" and "[] \<notin> set rk"
  shows "cleanObject w rk maxSize = cleanObject v rk maxSize"
  using agree_root_shape[OF assms] agree_apply_replacer(1)[OF assms(1)]
  by (auto simp: cleanObject_def)

text \<open>
  C2 (amended). For every object input and every deny-list without an empty entry:
  whenever the input has, at any depth, a property whose key in lower case contains an
  entry of the deny-list in lower case, and no key on the way to it is itself denied, the
  cleaned value holds the literal string \<open>[REDACTED]\<close> at that place, and nothing below
  it. \<open>cleanObject\<close> returns the cleaned value, or the truncated prefix of its
  serialization. The output does not depend on the original value of such a key: two
  inputs that differ only in values held under denied keys give the same output.
\<close>

theorem cleanObject_redacts:
  assumes "[] \<notin> set redactKeys" and "truthy obj" and "typeof_object obj"
  shows "\<exists>cleaned.
           JSON_parse_stringify (apply_replacer redactKeys [] obj) = Inr cleaned
         \<and> (cleanObject obj redactKeys maxSize = Inr cleaned
              \<or> (\<exists>compact. JSON_stringify cleaned = Some compact
                    \<and> cleanObject obj redactKeys maxSize
                        = Inr (VStr (substring0 compact maxSize @ ''... [TRUNCATED]''))))
         \<and> (\<forall>p k v e. at_path obj (p @ [k]) = Some v
                \<and> e \<in> set redactKeys \<and> str_includes (toLowerCase k) (toLowerCase e)
                \<and> (\<forall>s\<in>set p. \<not> denied redactKeys s)
                \<longrightarrow> at_path cleaned (p @ [k]) = Some (VStr ''[REDACTED]''))
         \<and> (\<forall>obj'. agree redactKeys [] obj obj'
                \<longrightarrow> cleanObject obj' redactKeys maxSize = cleanObject obj redactKeys maxSize)"
proof -
  from cleanObject_object[OF assms(2,3), of redactKeys maxSize]
  obtain cleaned compact jsonString where
    c: "JSON_parse_stringify (apply_replacer redactKeys [] obj) = Inr cleaned"
       "JSON_stringify cleaned = Some compact"
       "cleanObject obj redactKeys maxSize =
          (if int (length jsonString) > maxSize
           then Inr (VStr (substring0 compact maxSize @ ''... [TRUNCATED]''))
           else Inr cleaned)"
       and "JSON_stringify_pretty cleaned = Some jsonString"
       and "length compact \<le> length jsonString"
    by blast
  have root: "\<not> denied redactKeys []"
    using assms(1) by (simp add: denied_root)
  have cl: "cleaned = reparse (apply_replacer redactKeys [] obj)"
    using c(1) by (simp add: JSON_parse_stringify_def split: if_splits)
  have paths: "at_path cleaned (p @ [k]) = Some (VStr ''[REDACTED]'')"
    if "at_path obj (p @ [k]) = Some v" "e \<in> set redactKeys"
       "str_includes (toLowerCase k) (toLowerCase e)" "\<forall>s\<in>set p. \<not> denied redactKeys s"
    for p k v e
  proof -
    have "denied redactKeys k" using that(2,3) by (auto simp: denied_iff)
    from at_path_cleaned[OF that(1) root that(4) this] show ?thesis by (simp add: cl)
  qed
  have same: "cleanObject obj' redactKeys maxSize = cleanObject obj redactKeys maxSize"
    if "agree redactKeys [] obj obj'" for obj'
    using agree_cleanObject[OF that assms(1)] .
  from c(1,2,3) paths same show ?thesis
    by (intro exI[of _ cleaned] conjI) (auto split: if_splits)
qed

text \<open>The request body \<^verbatim>\<open>{user: {name: "John Doe", Password: "secret123"}}\<close> under the
  deny-list \<open>password\<close>: the nested value is replaced, and another secret in its place
  gives the same output.\<close>

theorem cleanObject_redacts_witness:
  "[] \<notin> set [''password'']
   \<and> truthy (VObj [(''user'', VObj [(''name'', VStr ''John Doe''), (''Password'', VStr ''secret123'')])])
   \<and> typeof_object (VObj [(''user'', VObj [(''name'', VStr ''John Doe''), (''Password'', VStr ''secret123'')])])
   \<and> (\<exists>cleaned.
         JSON_parse_stringify (apply_replacer [''password''] []
           (VObj [(''user'', VObj [(''name'', VStr ''John Doe''), (''Password'', VStr ''secret123'')])]))
           = Inr cleaned
       \<and> at_path cleaned [''user'', ''Password''] = Some (VStr ''[REDACTED]''))
   \<and> cleanObject (VObj [(''user'', VObj [(''name'', VStr ''John Doe''), (''Password'', VNum 42)])])
         [''password''] 1000
       = cleanObject (VObj [(''user'', VObj [(''name'', VStr ''John Doe''), (''Password'', VStr ''secret123'')])])
         [''password''] 1000"
proof -
  let ?obj = "VObj [(''user'', VObj [(''name'', VStr ''John Doe''), (''Password'', VStr ''secret123'')])]"
  let ?obj' = "VObj [(''user'', VObj [(''name'', VStr ''John Doe''), (''Password'', VNum 42)])]"
  have h: "[] \<notin> set [''password'']" "truthy ?obj" "typeof_object ?obj" by simp_all
  from cleanObject_redacts[OF h, of 1000] obtain cleaned where
    c: "JSON_parse_stringify (apply_replacer [''password''] [] ?obj) = Inr cleaned"
    and p: "\<And>p k v e. at_path ?obj (p @ [k]) = Some v \<Longrightarrow> e \<in> set [''password'']
              \<Longrightarrow> str_includes (toLowerCase k) (toLowerCase e)
              \<Longrightarrow> (\<forall>s\<in>set p. \<not> denied [''password''] s)
              \<Longrightarrow> at_path cleaned (p @ [k]) = Some (VStr ''[REDACTED]'')"
    and s: "\<And>obj'. agree [''password''] [] ?obj obj'
              \<Longrightarrow> cleanObject obj' [''password''] 1000 = cleanObject ?obj [''password''] 1000"
    by blast
  have "at_path cleaned ([''user''] @ [''Password'']) = Some (VStr ''[REDACTED]'')"
    by (rule p[of _ _ "VStr ''secret123''" "''password''"])
       (simp_all add: denied_def eval_simps)
  moreover have "cleanObject ?obj' [''password''] 1000 = cleanObject ?obj [''password''] 1000"
    by (rule s) (simp add: denied_def eval_simps)
  ultimately show ?thesis using h c by auto
qed

text \<open>
  The claim as the spec states it, that the original value appears nowhere in the output,
  fails when the input holds the same value under a key that is not denied: in
  \<^verbatim>\<open>{password: "hunter2", note: "hunter2"}\<close> the value of \<open>password\<close> is replaced, and the
  output still contains \<open>hunter2\<close>.
\<close>

theorem cleanObject_redacts_counterexample:
  "denied [''password''] ''password''
   \<and> at_path (VObj [(''password'', VStr ''hunter2''), (''note'', VStr ''hunter2'')]) [''password'']
       = Some (VStr ''hunter2'')
   \<and> cleanObject (VObj [(''password'', VStr ''hunter2''), (''note'', VStr ''hunter2'')]) [''password''] 1000
       = Inr (VObj [(''password'', VStr ''[REDACTED]''), (''note'', VStr ''hunter2'')])
   \<and> occurs (VStr ''hunter2'') (VObj [(''password'', VStr ''[REDACTED]''), (''note'', VStr ''hunter2'')])"
  by (simp add: denied_def eval_simps)

subsection \<open>The stack-trace block\<close>

lemma split_lines_nonempty [simp]: "split_lines s \<noteq> []"
  by (induction s) (auto split: list.splits)

lemma split_lines_single: "CHR 0x0A \<notin> set l \<Longrightarrow> split_lines l = [l]"
  by (induction l) auto

lemma split_lines_append:
  "CHR 0x0A \<notin> set l \<Longrightarrow> split_lines (l @ CHR 0x0A # rest) = l # split_lines rest"
  by (induction l) auto

lemma split_lines_join:
  "ls \<noteq> [] \<Longrightarrow> \<forall>l\<in>set ls. CHR 0x0A \<notin> set l \<Longrightarrow> split_lines (join [CHR 0x0A] ls) = ls"
  by (induction "[CHR 0x0A]" ls rule: join.induct)
     (auto simp: split_lines_single split_lines_append)

lemma slice0_nonneg: "0 \<le> n \<Longrightarrow> slice0 xs n = take (nat n) xs"
  by (simp add: slice0_def)

text \<open>
  C7. With a non-negative cap \<open>maxStackLines\<close> and a stack that, when present, is a string:
  the stack-trace block shows the first lines of the stack, at most \<open>maxStackLines\<close> of
  them, or the placeholder line when there is no stack; the marker line
  \<open>... [TRUNCATED]\<close> follows them inside the fence if and only if the stack has more
  lines than the cap.
\<close>

theorem stack_section_cap:
  assumes "0 \<le> maxStackLines cfg"
      and "get_prop err ''stack'' = Inr stack"
      and "truthy stack \<longrightarrow> stack = VStr s"
  shows "\<exists>shown.
           stackLines cfg stack = Inr shown
         \<and> shown = take (nat (maxStackLines cfg))
                     (if truthy stack then split_lines s else [''No stack trace available''])
         \<and> int (length shown) \<le> maxStackLines cfg
         \<and> stack_section th cfg err
             = Inr ([toString (token stackIcon th) @ '' **Stack Trace:**'',
                     ''```'',
                     join [CHR 0x0A] shown]
                    @ (if truthy stack \<and> maxStackLines cfg < int (length (split_lines s))
                       then [''... [TRUNCATED]''] else [])
                    @ [''```'', []])"
proof (cases "truthy stack")
  case True
  with assms(3) have st: "stack = VStr s" by simp
  with True assms(1,2) show ?thesis
    by (simp add: stackLines_def stack_truncated_def stack_section_def or_else_def slice0_nonneg)
next
  case False
  with assms(1,2) show ?thesis
    by (simp add: stackLines_def stack_truncated_def stack_section_def or_else_def slice0_nonneg)
qed

lemma split_lines_length_ne: "length (split_lines s) \<noteq> 1 \<Longrightarrow> s \<noteq> []"
  by auto

text \<open>A stack of 60 lines under the default cap of 50: exactly 50 lines, then the marker.\<close>

theorem stack_section_cap_witness:
  "0 \<le> maxStackLines defaultOptions
   \<and> stack_section (Own github) defaultOptions
        (VObj [(''message'', VStr ''boom''),
               (''stack'', VStr (join [CHR 0x0A] (replicate 60 ''    at f (file.js:1:1)'')))])
     = Inr [emoji_clipboard @ '' **Stack Trace:**'',
            ''```'',
            join [CHR 0x0A] (replicate 50 ''    at f (file.js:1:1)''),
            ''... [TRUNCATED]'',
            ''```'',
            []]"
proof -
  define l where "l = ''    at f (file.js:1:1)''"
  define s where "s = join [CHR 0x0A] (replicate 60 l)"
  define err where "err = VObj [(''message'', VStr ''boom''), (''stack'', VStr s)]"
  have "CHR 0x0A \<notin> set l" by (simp add: l_def)
  then have sp: "split_lines s = replicate 60 l"
    unfolding s_def by (intro split_lines_join) auto
  have ne: "s \<noteq> []"
    by (rule split_lines_length_ne) (simp add: sp)
  have m: "maxStackLines defaultOptions = 50" by (simp add: defaultOptions_def)
  have h: "0 \<le> maxStackLines defaultOptions" "get_prop err ''stack'' = Inr (VStr s)"
    "truthy (VStr s) \<longrightarrow> VStr s = VStr s"
    by (simp_all add: m err_def)
  have t: "toString (token stackIcon (Own github)) = emoji_clipboard"
    by (simp add: token_def github_def)
  from stack_section_cap[OF h, of "Own github"]
  have "stack_section (Own github) defaultOptions err
          = Inr [emoji_clipboard @ '' **Stack Trace:**'', ''```'',
                 join [CHR 0x0A] (replicate 50 l), ''... [TRUNCATED]'', ''```'', []]"
    by (simp add: sp ne m t min_def)
  then show ?thesis
    unfolding err_def s_def l_def using h(1) by simp
qed

subsection \<open>The request blocks\<close>

lemma json_block_Inr:
  "json_block label (Inr v) = Inr (label @ [''```json'', pushed_text (JSON_stringify_pretty v), ''```''])"
  by (simp add: json_block_def)

text \<open>
  C4 (amended). When a request is supplied, the body block shows the body passed through
  the Redactor with the configured deny-list and the configured \<open>maxBodySize\<close>; the query
  block shows the query passed through the Redactor with the configured deny-list and the
  Redactor's default cap of 1000 characters; the route parameters are shown as they are.
  The blocks follow the lines of the method, the URL, the address and the user agent,
  whose conversion to text is the one step of the section that can throw.
\<close>

theorem request_section_redaction:
  assumes "truthy req"
  shows "\<exists>cb cq ch.
           cleanObject (get_opt req ''body'') (redact cfg) (maxBodySize cfg) = Inr cb
         \<and> cleanObject (get_opt req ''query'') (redact cfg) 1000 = Inr cq
         \<and> cleanObject (get_opt req ''headers'') (redact cfg) 1000 = Inr ch
         \<and> request_section th cfg req
             = (case request_lines th req of
                  Inl x \<Rightarrow> Inl x
                | Inr head \<Rightarrow>
                    (case user_agent_line cfg req of
                       Inl x \<Rightarrow> Inl x
                     | Inr agent \<Rightarrow>
                         Inr (head @ agent
                              @ (if truthy (get_opt req ''body'') \<and> has_keys (get_opt req ''body'')
                                 then [''- **Body:**'', ''```json'',
                                       pushed_text (JSON_stringify_pretty cb), ''```'']
                                 else [])
                              @ (if truthy (get_opt req ''query'') \<and> has_keys (get_opt req ''query'')
                                 then [''- **Query Parameters:**'', ''```json'',
                                       pushed_text (JSON_stringify_pretty cq), ''```'']
                                 else [])
                              @ (if truthy (get_opt req ''params'') \<and> has_keys (get_opt req ''params'')
                                 then [''- **Route Parameters:**'', ''```json'',
                                       pushed_text (JSON_stringify_pretty (get_opt req ''params'')), ''```'']
                                 else [])
                              @ [''- **Headers:**'', ''```json'',
                                 pushed_text (JSON_stringify_pretty ch), ''```'', []])))"
proof -
  obtain cb where cb: "cleanObject (get_opt req ''body'') (redact cfg) (maxBodySize cfg) = Inr cb"
    using cleanObject_total by blast
  obtain cq where cq: "cleanObject (get_opt req ''query'') (redact cfg) 1000 = Inr cq"
    using cleanObject_total by blast
  obtain ch where ch: "cleanObject (get_opt req ''headers'') (redact cfg) 1000 = Inr ch"
    using cleanObject_total by blast
  have "request_section th cfg req
          = (case request_lines th req of
               Inl x \<Rightarrow> Inl x
             | Inr head \<Rightarrow>
                 (case user_agent_line cfg req of
                    Inl x \<Rightarrow> Inl x
                  | Inr agent \<Rightarrow>
                      Inr (head @ agent
                           @ (if truthy (get_opt req ''body'') \<and> has_keys (get_opt req ''body'')
                              then [''- **Body:**'', ''```json'',
                                    pushed_text (JSON_stringify_pretty cb), ''```'']
                              else [])
                           @ (if truthy (get_opt req ''query'') \<and> has_keys (get_opt req ''query'')
                              then [''- **Query Parameters:**'', ''```json'',
                                    pushed_text (JSON_stringify_pretty cq), ''```'']
                              else [])
                           @ (if truthy (get_opt req ''params'') \<and> has_keys (get_opt req ''params'')
                              then [''- **Route Parameters:**'', ''```json'',
                                    pushed_text (JSON_stringify_pretty (get_opt req ''params'')), ''```'']
                              else [])
                           @ [''- **Headers:**'', ''```json'',
                              pushed_text (JSON_stringify_pretty ch), ''```'', []])))"
  proof (cases "request_lines th req")
    case (Inl x)
    then show ?thesis using assms by (simp add: request_section_def)
  next
    case head: (Inr head)
    show ?thesis
    proof (cases "user_agent_line cfg req")
      case (Inl x)
      then show ?thesis using assms head by (simp add: request_section_def)
    next
      case (Inr agent)
      then show ?thesis
        using assms head cb cq ch
        by (simp add: request_section_def body_block_def query_block_def params_block_def
              headers_block_def json_block_Inr Let_def)
    qed
  qed
  with cb cq ch show ?thesis by blast
qed

theorem request_section_redaction_witness:
  "truthy (VObj [(''body'', VObj [(''password'', VStr ''secret123'')]),
                 (''query'', VObj [(''token'', VStr ''abc'')]),
                 (''params'', VObj [(''token'', VStr ''abc'')])])
   \<and> (\<exists>ls. request_section (Own github) defaultOptions
          (VObj [(''body'', VObj [(''password'', VStr ''secret123'')]),
                 (''query'', VObj [(''token'', VStr ''abc'')]),
                 (''params'', VObj [(''token'', VStr ''abc'')])])
        = Inr (ls
               @ [''- **Body:**'', ''```json'',
                  pushed_text (JSON_stringify_pretty (VObj [(''password'', VStr ''[REDACTED]'')])), ''```'']
               @ [''- **Query Parameters:**'', ''```json'',
                  pushed_text (JSON_stringify_pretty (VObj [(''token'', VStr ''[REDACTED]'')])), ''```'']
               @ [''- **Route Parameters:**'', ''```json'',
                  pushed_text (JSON_stringify_pretty (VObj [(''token'', VStr ''abc'')])), ''```'']
               @ [''- **Headers:**'', ''```json'', [], ''```'', []]))"
proof -
  let ?req = "VObj [(''body'', VObj [(''password'', VStr ''secret123'')]),
                    (''query'', VObj [(''token'', VStr ''abc'')]),
                    (''params'', VObj [(''token'', VStr ''abc'')])]"
  have b: "cleanObject (VObj [(''password'', VStr ''secret123'')]) (redact defaultOptions) 1000
             = Inr (VObj [(''password'', VStr ''[REDACTED]'')])"
    by (simp add: defaultOptions_def eval_simps)
  have q: "cleanObject (VObj [(''token'', VStr ''abc'')]) (redact defaultOptions) 1000
             = Inr (VObj [(''token'', VStr ''[REDACTED]'')])"
    by (simp add: defaultOptions_def eval_simps)
  have h: "cleanObject VUndef (redact defaultOptions) 1000 = Inr VUndef"
    by (simp add: cleanObject_def)
  have m: "maxBodySize defaultOptions = 1000" by (simp add: defaultOptions_def)
  have t: "truthy ?req" by simp
  have l: "\<exists>head. request_lines (Own github) ?req = Inr head"
    by (simp add: request_lines_def template_def or_else_def)
  have u: "user_agent_line defaultOptions ?req = Inr []"
    by (simp add: user_agent_line_def)
  from request_section_redaction[OF t, of defaultOptions "Own github"] b q h m l u
  show ?thesis
    by (auto simp: JSON_stringify_pretty_def pushed_text_def)
qed

text \<open>
  The claim as the spec states it fails for the query parameters: with
  \<open>maxBodySize = 5\<close> and the query \<^verbatim>\<open>{q: "abc"}\<close> the block shows the whole query, where
  the Redactor under the configured cap would return a truncated string.
\<close>

theorem request_section_redaction_counterexample:
  "query_block (defaultOptions\<lparr>maxBodySize := 5\<rparr>) (VObj [(''query'', VObj [(''q'', VStr ''abc'')])])
     = Inr [''- **Query Parameters:**'', ''```json'',
            ''{'' @ [CHR 0x0A] @ ''  '' @ [CHR 0x22] @ ''q'' @ [CHR 0x22] @ '': '' @ [CHR 0x22]
              @ ''abc'' @ [CHR 0x22] @ [CHR 0x0A] @ ''}'',
            ''```'']
   \<and> cleanObject (VObj [(''q'', VStr ''abc'')]) (redact (defaultOptions\<lparr>maxBodySize := 5\<rparr>))
         (maxBodySize (defaultOptions\<lparr>maxBodySize := 5\<rparr>))
     = Inr (VStr (''{'' @ [CHR 0x22] @ ''q'' @ [CHR 0x22] @ '':... [TRUNCATED]''))"
  by (simp add: query_block_def json_block_def pushed_text_def defaultOptions_def eval_simps)

subsection \<open>The error ID\<close>

lemma upper_char_hex:
  "c \<in> set ''0123456789abcdef'' \<Longrightarrow> upper_char c \<in> set ''0123456789ABCDEF''"
  by (auto simp: upper_char_def char_of_def bit_Suc_0_iff)

lemma toUpperCase_hex:
  "set h \<subseteq> set ''0123456789abcdef'' \<Longrightarrow> set (toUpperCase h) \<subseteq> set ''0123456789ABCDEF''"
  unfolding toUpperCase_def using upper_char_hex by (induction h) auto

text \<open>The first piece of \<^verbatim>\<open>s.split('\n')\<close> is the text of \<open>s\<close> before its first line feed.\<close>

lemma split_lines_first:
  "\<exists>ls. split_lines s = takeWhile (\<lambda>c. c \<noteq> CHR 0x0A) s # ls"
  by (induction s) auto

lemma first_stack_line_text:
  "first_stack_line (VStr s) = Inr (VStr (takeWhile (\<lambda>c. c \<noteq> CHR 0x0A) s))"
  using split_lines_first[of s] by auto

lemma hex_char_hex: "d < 16 \<Longrightarrow> hex_char d \<in> set ''0123456789abcdef''"
proof -
  assume "d < 16"
  then have "d = 0 \<or> d = 1 \<or> d = 2 \<or> d = 3 \<or> d = 4 \<or> d = 5 \<or> d = 6 \<or> d = 7 \<or> d = 8
           \<or> d = 9 \<or> d = 10 \<or> d = 11 \<or> d = 12 \<or> d = 13 \<or> d = 14 \<or> d = 15"
    by arith
  then show ?thesis
    by (elim disjE) (simp_all add: hex_char_def char_of_def bit_Suc_0_iff)
qed

lemma hex8_hex: "set (hex8 n) \<subseteq> set ''0123456789abcdef''"
proof -
  have h: "hex_char (k mod 16) \<in> set ''0123456789abcdef''" for k
    by (rule hex_char_hex) simp
  show ?thesis
    unfolding hex8_def set_map image_subset_iff using h by blast
qed

lemma sample_md5_hex:
  "length (sample_md5 payload) = 32 \<and> set (sample_md5 payload) \<subseteq> set ''0123456789abcdef''"
proof -
  have "length (sample_md5 payload) = 32"
    by (simp add: sample_md5_def hex8_def)
  moreover have "set (sample_md5 payload) \<subseteq> set ''0123456789abcdef''"
    unfolding sample_md5_def set_append using hex8_hex[of "checksum payload"] by blast
  ultimately show ?thesis by blast
qed

text \<open>
  C5. The error ID is a function of its two arguments, with no clock, random source or
  process state among them, and it depends on the message, the first line of the stack,
  the path and the method only. Let the stack of the error be the text \<open>s\<close> (the empty
  text when the stack is absent): the ID is the tag \<open>ERR-\<close> followed by the first 8
  characters, in upper case, of the hexadecimal digest of the serialization of the object
  with the members \<open>message\<close>, \<open>stack\<close> (the text of \<open>s\<close> before its first line feed),
  \<open>url\<close> (\<open>originalUrl\<close>, else \<open>url\<close>, else empty) and \<open>method\<close> (else empty), in this order.
  A second call, on an error and a request that agree with the first on these four,
  returns the same ID.
\<close>

theorem generateErrorId_deterministic:
  assumes "\<forall>payload. length (md5 payload) = 32 \<and> set (md5 payload) \<subseteq> set ''0123456789abcdef''"
      and "err \<noteq> VUndef" and "err \<noteq> VNull"
      and "err' \<noteq> VUndef" and "err' \<noteq> VNull"
      and "get_opt err ''stack'' = VStr s
           \<or> (get_opt err ''stack'' = VUndef \<or> get_opt err ''stack'' = VNull) \<and> s = []"
      and "get_opt err' ''stack'' = VStr s'
           \<or> (get_opt err' ''stack'' = VUndef \<or> get_opt err' ''stack'' = VNull) \<and> s' = []"
      and "get_opt err' ''message'' = get_opt err ''message''"
      and "takeWhile (\<lambda>c. c \<noteq> CHR 0x0A) s' = takeWhile (\<lambda>c. c \<noteq> CHR 0x0A) s"
      and "or_else (get_opt req' ''originalUrl'') (or_else (get_opt req' ''url'') (VStr []))
           = or_else (get_opt req ''originalUrl'') (or_else (get_opt req ''url'') (VStr []))"
      and "or_else (get_opt req' ''method'') (VStr []) = or_else (get_opt req ''method'') (VStr [])"
  shows "\<exists>payload h.
           JSON_stringify
             (VObj [(''message'', get_opt err ''message''),
                    (''stack'', VStr (takeWhile (\<lambda>c. c \<noteq> CHR 0x0A) s)),
                    (''url'', or_else (get_opt req ''originalUrl'')
                                (or_else (get_opt req ''url'') (VStr []))),
                    (''method'', or_else (get_opt req ''method'') (VStr []))]) = Some payload
         \<and> h = toUpperCase (take 8 (md5 payload))
         \<and> length h = 8 \<and> set h \<subseteq> set ''0123456789ABCDEF''
         \<and> generateErrorId md5 err req = Inr (''ERR-'' @ h)
         \<and> generateErrorId md5 err' req' = Inr (''ERR-'' @ h)"
proof -
  let ?d = "VObj [(''message'', get_opt err ''message''),
                  (''stack'', VStr (takeWhile (\<lambda>c. c \<noteq> CHR 0x0A) s)),
                  (''url'', or_else (get_opt req ''originalUrl'')
                              (or_else (get_opt req ''url'') (VStr []))),
                  (''method'', or_else (get_opt req ''method'') (VStr []))]"
  obtain payload where payload: "JSON_stringify ?d = Some payload" by simp
  define h where "h = toUpperCase (take 8 (md5 payload))"
  have line: "\<exists>l. first_stack_line (get_opt err ''stack'') = Inr l
                \<and> or_else l (VStr []) = VStr (takeWhile (\<lambda>c. c \<noteq> CHR 0x0A) s)"
    using assms(6) by (auto simp: first_stack_line_text or_else_def simp del: first_stack_line.simps(3))
  have line': "\<exists>l. first_stack_line (get_opt err' ''stack'') = Inr l
                \<and> or_else l (VStr []) = VStr (takeWhile (\<lambda>c. c \<noteq> CHR 0x0A) s)"
    using assms(7) assms(9)[symmetric]
    by (auto simp: first_stack_line_text or_else_def simp del: first_stack_line.simps(3))
  have p: "get_prop err k = Inr (get_opt err k)" for k
    using assms(2,3) by (cases err) simp_all
  have p': "get_prop err' k = Inr (get_opt err' k)" for k
    using assms(4,5) by (cases err') simp_all
  have d: "errorData err req = Inr ?d"
    using line by (auto simp: errorData_def p)
  have d': "errorData err' req' = Inr ?d"
    using line' assms(8,10,11) by (auto simp: errorData_def p')
  have len: "length h = 8"
    using assms(1) by (simp add: h_def toUpperCase_def)
  have "set (take 8 (md5 payload)) \<subseteq> set ''0123456789abcdef''"
    using assms(1) set_take_subset by fast
  then have hex: "set h \<subseteq> set ''0123456789ABCDEF''"
    unfolding h_def by (rule toUpperCase_hex)
  have "generateErrorId md5 err req = Inr (''ERR-'' @ h)"
       "generateErrorId md5 err' req' = Inr (''ERR-'' @ h)"
    using d d' payload by (simp_all add: generateErrorId_def h_def substring0_def)
  with payload len hex h_def show ?thesis by blast
qed

text \<open>
  Two errors with the same message and first stack line, raised on requests with the
  same path and method: they differ in the rest of the stack, in the error name, and in
  the request body. Under the sample digest both have the ID \<open>ERR-1BD7CB66\<close>.
\<close>

theorem generateErrorId_deterministic_witness:
  "(\<forall>payload. length (sample_md5 payload) = 32 \<and> set (sample_md5 payload) \<subseteq> set ''0123456789abcdef'')
   \<and> generateErrorId sample_md5
        (VObj [(''message'', VStr ''boom''), (''stack'', VStr (''Error: boom'' @ [CHR 0x0A] @ ''  at f''))])
        (VObj [(''method'', VStr ''GET''), (''originalUrl'', VStr ''/a''), (''body'', VObj [(''x'', VNum 1)])])
     = Inr ''ERR-1BD7CB66''
   \<and> generateErrorId sample_md5
        (VObj [(''name'', VStr ''TypeError''), (''message'', VStr ''boom''),
               (''stack'', VStr (''Error: boom'' @ [CHR 0x0A] @ ''  at g''))])
        (VObj [(''method'', VStr ''GET''), (''url'', VStr ''/a'')])
     = Inr ''ERR-1BD7CB66''"
proof -
  let ?err = "VObj [(''message'', VStr ''boom''), (''stack'', VStr (''Error: boom'' @ [CHR 0x0A] @ ''  at f''))]"
  let ?err' = "VObj [(''name'', VStr ''TypeError''), (''message'', VStr ''boom''),
                     (''stack'', VStr (''Error: boom'' @ [CHR 0x0A] @ ''  at g''))]"
  let ?req = "VObj [(''method'', VStr ''GET''), (''originalUrl'', VStr ''/a''), (''body'', VObj [(''x'', VNum 1)])]"
  let ?req' = "VObj [(''method'', VStr ''GET''), (''url'', VStr ''/a'')]"
  have m: "\<forall>payload. length (sample_md5 payload) = 32
             \<and> set (sample_md5 payload) \<subseteq> set ''0123456789abcdef''"
    using sample_md5_hex by blast
  have c: "checksum (''{'' @ quote ''message'' @ '':'' @ quote ''boom'' @ '','' @ quote ''stack'' @ '':''
                     @ quote ''Error: boom'' @ '','' @ quote ''url'' @ '':'' @ quote ''/a'' @ '',''
                     @ quote ''method'' @ '':'' @ quote ''GET'' @ ''}'') = 467127142"
    by (simp add: checksum_def quote_def quote_char_def)
  have u: "toUpperCase (take 8 (sample_md5 payload)) = ''1BD7CB66''" if "checksum payload = 467127142" for payload
    using that
    by (simp add: sample_md5_def hex8_def hex_char_def toUpperCase_def upper_char_def
          char_of_def bit_Suc_0_iff)
  from generateErrorId_deterministic[OF m,
      of ?err ?err' "''Error: boom'' @ [CHR 0x0A] @ ''  at f''"
         "''Error: boom'' @ [CHR 0x0A] @ ''  at g''" ?req' ?req]
  have "generateErrorId sample_md5 ?err ?req = Inr ''ERR-1BD7CB66''
        \<and> generateErrorId sample_md5 ?err' ?req' = Inr ''ERR-1BD7CB66''"
    using c by (auto simp: or_else_def u quote_def)
  with m show ?thesis by blast
qed

text \<open>The sample digest tells fingerprints apart: when the first line of the stack reads
  otherwise, the ID is another one.\<close>

lemma generateErrorId_sample_distinct:
  "generateErrorId sample_md5
        (VObj [(''message'', VStr ''boom''), (''stack'', VStr (''Error: bang'' @ [CHR 0x0A] @ ''  at f''))])
        (VObj [(''method'', VStr ''GET''), (''originalUrl'', VStr ''/a'')])
     = Inr ''ERR-4AD38E31''"
  by (simp add: generateErrorId_def errorData_def or_else_def substring0_def quote_def
        quote_char_def checksum_def sample_md5_def hex8_def hex_char_def toUpperCase_def
        upper_char_def char_of_def bit_Suc_0_iff)

subsection \<open>Totality of the report builder\<close>

lemma get_prop_defined:
  "err \<noteq> VUndef \<Longrightarrow> err \<noteq> VNull \<Longrightarrow> get_prop err k = Inr (get_opt err k)"
  by (cases err) simp_all

lemma get_prop_nullish: "err = VUndef \<or> err = VNull \<Longrightarrow> get_prop err k = Inl TypeError"
  by auto

lemma get_prop_truthy: "truthy req \<Longrightarrow> get_prop req k = Inr (get_opt req k)"
  by (cases req) simp_all

lemma sections_total:
  "\<forall>s\<in>set ss. \<exists>ls. s = Inr ls \<Longrightarrow> \<exists>md. sections ss = Inr md"
  by (induction ss) (auto split: sum.splits)

lemma first_stack_line_total:
  "stack = VUndef \<or> stack = VNull \<or> (\<exists>s. stack = VStr s) \<Longrightarrow> \<exists>l. first_stack_line stack = Inr l"
  by auto

lemma generateErrorId_total:
  assumes "err \<noteq> VUndef" and "err \<noteq> VNull"
      and "get_opt err ''stack'' = VUndef \<or> get_opt err ''stack'' = VNull
           \<or> (\<exists>s. get_opt err ''stack'' = VStr s)"
  shows "\<exists>i. generateErrorId md5 err req = Inr i"
proof -
  from first_stack_line_total[OF assms(3)] obtain l where "first_stack_line (get_opt err ''stack'') = Inr l"
    by blast
  then show ?thesis
    using assms(1,2) by (simp add: generateErrorId_def errorData_def get_prop_defined)
qed

lemma header_section_total:
  assumes "err \<noteq> VUndef" and "err \<noteq> VNull"
      and "get_opt err ''stack'' = VUndef \<or> get_opt err ''stack'' = VNull
           \<or> (\<exists>s. get_opt err ''stack'' = VStr s)"
  shows "\<exists>ls. header_section md5 e th cfg err req = Inr ls"
  using generateErrorId_total[OF assms, of md5 req]
  by (auto simp: header_section_def Let_def)

lemma stack_section_total:
  assumes "err \<noteq> VUndef" and "err \<noteq> VNull"
      and "get_opt err ''stack'' = VUndef \<or> get_opt err ''stack'' = VNull
           \<or> (\<exists>s. get_opt err ''stack'' = VStr s)"
  shows "\<exists>ls. stack_section th cfg err = Inr ls"
  using assms
  by (auto simp: stack_section_def stackLines_def stack_truncated_def get_prop_defined or_else_def)

lemma json_block_total: "\<exists>v. c = Inr v \<Longrightarrow> \<exists>ls. json_block label c = Inr ls"
  by (auto simp: json_block_def)

lemma template_total: "convertible v \<Longrightarrow> template v = Inr (toString v)"
  by (simp add: template_def)

lemma convertible_or_else: "convertible a \<Longrightarrow> convertible b \<Longrightarrow> convertible (or_else a b)"
  by (simp add: or_else_def)

lemma request_lines_total:
  assumes "convertible (get_opt req ''method'')"
      and "convertible (get_opt req ''originalUrl'')" and "convertible (get_opt req ''url'')"
      and "convertible (get_opt req ''ip'')"
      and "convertible (get_opt (get_opt req ''connection'') ''remoteAddress'')"
  shows "\<exists>ls. request_lines th req = Inr ls"
proof -
  have "convertible (or_else (get_opt req ''originalUrl'') (get_opt req ''url''))"
    using assms(2,3) by (rule convertible_or_else)
  moreover have "convertible (or_else (get_opt req ''ip'')
                    (or_else (get_opt (get_opt req ''connection'') ''remoteAddress'') (VStr ''unknown'')))"
    using assms(4,5) by (simp add: or_else_def)
  ultimately show ?thesis
    using assms(1) by (simp add: request_lines_def template_total)
qed

lemma user_agent_line_total:
  assumes "convertible (get_opt (get_opt req ''headers'') ''user-agent'')"
  shows "\<exists>ls. user_agent_line cfg req = Inr ls"
  using assms by (simp add: user_agent_line_def template_total)

lemma request_section_total:
  assumes "convertible (get_opt req ''method'')"
      and "convertible (get_opt req ''originalUrl'')" and "convertible (get_opt req ''url'')"
      and "convertible (get_opt req ''ip'')"
      and "convertible (get_opt (get_opt req ''connection'') ''remoteAddress'')"
      and "convertible (get_opt (get_opt req ''headers'') ''user-agent'')"
  shows "\<exists>ls. request_section th cfg req = Inr ls"
proof (cases "truthy req")
  case True
  have "\<exists>ls. body_block cfg req = Inr ls" "\<exists>ls. query_block cfg req = Inr ls"
       "\<exists>ls. params_block req = Inr ls"
    by (auto simp: body_block_def query_block_def params_block_def Let_def
          intro!: json_block_total cleanObject_total)
  moreover have "\<exists>ls. headers_block cfg req = Inr ls"
    using json_block_total[OF cleanObject_total, of "[''- **Headers:**'']" "get_opt req ''headers''" "redact cfg" 1000]
    by (auto simp: headers_block_def)
  moreover note request_lines_total[OF assms(1-5), of th] user_agent_line_total[OF assms(6), of cfg]
  ultimately show ?thesis
    using True by (auto simp: request_section_def intro!: sections_total)
next
  case False
  then show ?thesis by (simp add: request_section_def)
qed

text \<open>
  C1 (amended). Let the error be any value other than \<open>null\<close> and \<open>undefined\<close> (an object,
  or a primitive such as a string) whose \<open>stack\<close> is absent, \<open>null\<close> or a string, and let the
  request be any value, present or not. Let the fields that the report prints as text
  convert to text: the \<open>message\<close>, \<open>name\<close> and \<open>code\<close> of the error, and the \<open>method\<close>,
  \<open>originalUrl\<close>, \<open>url\<close>, \<open>ip\<close>, \<open>connection.remoteAddress\<close> and \<open>user-agent\<close> header of
  the request are not objects with an own property named \<open>toString\<close>, nor arrays that hold
  one. Then, for every combination of absent options, \<open>errorToMarkdown\<close> returns a string
  and does not throw. The values are trees, so no object contains itself, and the options
  that are given have the types of \<^verbatim>\<open>types.d.ts\<close>.
\<close>

theorem errorToMarkdown_total:
  assumes "err \<noteq> VUndef" and "err \<noteq> VNull"
      and "get_opt err ''stack'' = VUndef \<or> get_opt err ''stack'' = VNull
           \<or> (\<exists>s. get_opt err ''stack'' = VStr s)"
      and "convertible (get_opt err ''message'')"
      and "convertible (get_opt err ''name'')"
      and "convertible (get_opt err ''code'')"
      and "convertible (get_opt req ''method'')"
      and "convertible (get_opt req ''originalUrl'')"
      and "convertible (get_opt req ''url'')"
      and "convertible (get_opt req ''ip'')"
      and "convertible (get_opt (get_opt req ''connection'') ''remoteAddress'')"
      and "convertible (get_opt (get_opt req ''headers'') ''user-agent'')"
  shows "\<exists>report. errorToMarkdown md5 e err req opts = Inr report"
proof -
  define cfg where "cfg = merge_config defaultOptions opts"
  define th where "th = resolveTheme (theme cfg)"
  have "\<exists>md. sections
           [header_section md5 e th cfg err req,
            Inr (severity_section cfg),
            message_section th err,
            type_section err,
            code_section err,
            stack_section th cfg err,
            request_section th cfg req,
            Inr (environment_section th cfg e),
            Inr (performance_section cfg e),
            Inr (footer_section th)] = Inr md"
  proof (rule sections_total, intro ballI)
    fix s
    assume "s \<in> set [header_section md5 e th cfg err req, Inr (severity_section cfg),
        message_section th err, type_section err, code_section err, stack_section th cfg err,
        request_section th cfg req, Inr (environment_section th cfg e),
        Inr (performance_section cfg e), Inr (footer_section th)]"
    then consider "s = header_section md5 e th cfg err req" | "s = Inr (severity_section cfg)"
      | "s = message_section th err" | "s = type_section err" | "s = code_section err"
      | "s = stack_section th cfg err" | "s = request_section th cfg req"
      | "s = Inr (environment_section th cfg e)" | "s = Inr (performance_section cfg e)"
      | "s = Inr (footer_section th)"
      by auto
    then show "\<exists>ls. s = Inr ls"
    proof cases
      case 1
      then show ?thesis using header_section_total[OF assms(1-3)] by simp
    next
      case 3
      then show ?thesis
        using assms(1,2,4)
        by (simp add: message_section_def get_prop_defined template_total or_else_def)
    next
      case 4
      then show ?thesis
        using assms(1,2,5) by (simp add: type_section_def get_prop_defined template_total)
    next
      case 5
      then show ?thesis
        using assms(1,2,6) by (simp add: code_section_def get_prop_defined template_total)
    next
      case 6
      then show ?thesis using stack_section_total[OF assms(1-3)] by simp
    next
      case 7
      then show ?thesis using request_section_total[OF assms(7-12)] by simp
    qed simp_all
  qed
  then show ?thesis
    by (auto simp: errorToMarkdown_def Let_def cfg_def th_def)
qed

text \<open>The error is the string \<^verbatim>\<open>"boom"\<close>, with no request and no options.\<close>

theorem errorToMarkdown_total_witness:
  "VStr ''boom'' \<noteq> VUndef \<and> VStr ''boom'' \<noteq> VNull
   \<and> get_opt (VStr ''boom'') ''stack'' = VUndef
   \<and> convertible (get_opt (VStr ''boom'') ''message'')
   \<and> convertible (get_opt (VStr ''boom'') ''name'')
   \<and> convertible (get_opt (VStr ''boom'') ''code'')
   \<and> convertible (get_opt VNull ''method'')
   \<and> convertible (get_opt VNull ''originalUrl'')
   \<and> convertible (get_opt VNull ''url'')
   \<and> convertible (get_opt VNull ''ip'')
   \<and> convertible (get_opt (get_opt VNull ''connection'') ''remoteAddress'')
   \<and> convertible (get_opt (get_opt VNull ''headers'') ''user-agent'')
   \<and> (\<exists>report. errorToMarkdown sample_md5 sample_env (VStr ''boom'') VNull no_options = Inr report)"
  using errorToMarkdown_total[of "VStr ''boom''" VNull sample_md5 sample_env no_options]
  by simp

text \<open>
  The claim as the spec states it, for every error input including \<open>null\<close>, fails: with
  the error \<open>null\<close> the read \<^verbatim>\<open>err.message\<close> of line 65 throws a TypeError; with an
  error whose \<open>stack\<close> is the number 5 the call \<^verbatim>\<open>err.stack?.split('\n')\<close> of line 66
  throws one; and with the error \<^verbatim>\<open>{message: {toString: 1}}\<close> the template literal of
  line 160 throws one.
\<close>

theorem errorToMarkdown_total_counterexample:
  "errorToMarkdown sample_md5 sample_env VNull VNull no_options = Inl TypeError
   \<and> errorToMarkdown sample_md5 sample_env
        (VObj [(''message'', VStr ''boom''), (''stack'', VNum 5)]) VNull no_options
     = Inl TypeError
   \<and> errorToMarkdown sample_md5 sample_env
        (VObj [(''message'', VObj [(''toString'', VNum 1)])]) VNull no_options
     = Inl TypeError"
  by (simp add: errorToMarkdown_def merge_config_def defaultOptions_def no_options_def override_def
        header_section_def generateErrorId_def errorData_def message_section_def template_def
        or_else_def)

lemma errorToMarkdown_nullish:
  assumes "err = VUndef \<or> err = VNull"
  shows "errorToMarkdown md5 e err req opts = Inl TypeError"
proof -
  have m: "message_section th err = Inl TypeError" for th
    using assms by (auto simp: message_section_def)
  have h: "header_section md5 e th cfg err req = Inl TypeError
           \<or> (\<exists>ls. header_section md5 e th cfg err req = Inr ls)" for th cfg
    using assms by (auto simp: header_section_def generateErrorId_def errorData_def Let_def)
  show ?thesis
    using h[of "resolveTheme (theme (merge_config defaultOptions opts))" "merge_config defaultOptions opts"] m
    by (auto simp: errorToMarkdown_def Let_def)
qed

subsection \<open>No effect on the caller's objects\<close>

lemma fresh_extension_refl: "fresh_extension st st {}"
  by (simp add: fresh_extension_def)

lemma fresh_extension_iff:
  "fresh_extension st st' roots \<longleftrightarrow>
     (\<exists>ext. st' = st @ ext \<and> roots \<subseteq> {length st..<length st + length ext}
        \<and> (\<forall>c\<in>set ext. refs_of c \<subseteq> {length st..<length st + length ext}))"
proof
  assume f: "fresh_extension st st' roots"
  define ext where "ext = drop (length st) st'"
  have e: "st' = st @ ext"
    using f by (metis append_take_drop_id fresh_extension_def ext_def)
  have l: "length st + length ext = length st'"
    using arg_cong[OF e, of length] by simp
  have r: "roots \<subseteq> {length st..<length st'}"
    and c: "\<forall>c\<in>set ext. refs_of c \<subseteq> {length st..<length st'}"
    using f by (simp_all add: fresh_extension_def ext_def)
  show "\<exists>ext. st' = st @ ext \<and> roots \<subseteq> {length st..<length st + length ext}
        \<and> (\<forall>c\<in>set ext. refs_of c \<subseteq> {length st..<length st + length ext})"
  proof (intro exI conjI)
    show "st' = st @ ext" by (rule e)
    show "roots \<subseteq> {length st..<length st + length ext}" using r by (simp only: l)
    show "\<forall>c\<in>set ext. refs_of c \<subseteq> {length st..<length st + length ext}"
      using c by (simp only: l)
  qed
next
  assume "\<exists>ext. st' = st @ ext \<and> roots \<subseteq> {length st..<length st + length ext}
        \<and> (\<forall>c\<in>set ext. refs_of c \<subseteq> {length st..<length st + length ext})"
  then show "fresh_extension st st' roots"
    by (fastforce simp: fresh_extension_def)
qed

lemma fresh_extension_trans:
  assumes "fresh_extension st st1 r1" and "fresh_extension st1 st2 r2"
  shows "fresh_extension st st2 (r1 \<union> r2)"
proof -
  from assms(1) obtain e1 where e1: "st1 = st @ e1" "r1 \<subseteq> {length st..<length st + length e1}"
    "\<forall>c\<in>set e1. refs_of c \<subseteq> {length st..<length st + length e1}"
    unfolding fresh_extension_iff by blast
  from assms(2) obtain e2 where e2: "st2 = st1 @ e2" "r2 \<subseteq> {length st1..<length st1 + length e2}"
    "\<forall>c\<in>set e2. refs_of c \<subseteq> {length st1..<length st1 + length e2}"
    unfolding fresh_extension_iff by blast
  show ?thesis
    unfolding fresh_extension_iff
  proof (intro exI[of _ "e1 @ e2"] conjI ballI)
    show "st2 = st @ e1 @ e2" using e1(1) e2(1) by simp
    show "r1 \<union> r2 \<subseteq> {length st..<length st + length (e1 @ e2)}"
      using e1(1,2) e2(2) by auto
    fix c assume "c \<in> set (e1 @ e2)"
    then show "refs_of c \<subseteq> {length st..<length st + length (e1 @ e2)}"
      using e1(1,3) e2(3) by fastforce
  qed
qed

lemma fresh_extension_cell:
  assumes "fresh_extension st st' roots" and "refs_of c \<subseteq> roots"
  shows "fresh_extension st (st' @ [c]) {length st'}"
proof -
  from assms(1) obtain e where e: "st' = st @ e" "roots \<subseteq> {length st..<length st + length e}"
    "\<forall>c\<in>set e. refs_of c \<subseteq> {length st..<length st + length e}"
    unfolding fresh_extension_iff by blast
  show ?thesis
    unfolding fresh_extension_iff
  proof (intro exI[of _ "e @ [c]"] conjI ballI)
    show "st' @ [c] = st @ e @ [c]" using e(1) by simp
    show "{length st'} \<subseteq> {length st..<length st + length (e @ [c])}" using e(1) by simp
    fix d assume "d \<in> set (e @ [c])"
    then show "refs_of d \<subseteq> {length st..<length st + length (e @ [c])}"
      using e(2,3) assms(2) by fastforce
  qed
qed

lemma alloc_fresh:
  "alloc t st = (r, st') \<Longrightarrow> fresh_extension st st' (refs_of_val r)"
  "alloc_elems xs st = (rs, st') \<Longrightarrow> fresh_extension st st' (\<Union>x\<in>set rs. refs_of_val x)"
  "alloc_members ms st = (ks, st') \<Longrightarrow> fresh_extension st st' (\<Union>p\<in>set ks. refs_of_val (snd p))"
proof (induction t st and xs st and ms st arbitrary: r st' and rs st' and ks st'
         rule: alloc_alloc_elems_alloc_members.induct)
  case (6 xs st)
  obtain rs st1 where a: "alloc_elems xs st = (rs, st1)" by fastforce
  from 6(1)[OF a] have "fresh_extension st st1 (\<Union>x\<in>set rs. refs_of_val x)" .
  from fresh_extension_cell[OF this, of "CArr rs"] a 6(2) show ?case by auto
next
  case (7 ms st)
  obtain ks st1 where a: "alloc_members ms st = (ks, st1)" by fastforce
  from 7(1)[OF a] have "fresh_extension st st1 (\<Union>p\<in>set ks. refs_of_val (snd p))" .
  from fresh_extension_cell[OF this, of "CObj ks"] a 7(2) show ?case by auto
next
  case (9 x xs st)
  obtain r1 st1 where a: "alloc x st = (r1, st1)" by fastforce
  obtain rs1 st2 where b: "alloc_elems xs st1 = (rs1, st2)" by fastforce
  from fresh_extension_trans[OF 9(1)[OF a] 9(2)[OF a[symmetric] b]] a b 9(3)
  show ?case by (auto simp: Un_commute)
next
  case (11 k v ms st)
  obtain r1 st1 where a: "alloc v st = (r1, st1)" by fastforce
  obtain ks1 st2 where b: "alloc_members ms st1 = (ks1, st2)" by fastforce
  from fresh_extension_trans[OF 11(1)[OF a] 11(2)[OF a[symmetric] b]] a b 11(3)
  show ?case by (auto simp: Un_commute)
qed (auto simp: fresh_extension_refl)

text \<open>
  C6. \<open>cleanObject\<close> has no effect on the objects of its caller: for every stored value,
  deny-list and size cap, and whether the call returns or throws, every object that
  existed before the call is unchanged after it; a returned object is new, and the new
  objects refer to new objects only, so the result shares nothing with the input.
\<close>

theorem cleanObject_store_pure:
  assumes "cleanObject_store st obj redactKeys maxSize = (outcome, st')"
  shows "take (length st) st' = st
         \<and> (\<forall>result. outcome = Inr result \<longrightarrow> refs_of_val result \<subseteq> {length st..<length st'})
         \<and> (\<forall>c\<in>set (drop (length st) st'). refs_of c \<subseteq> {length st..<length st'})"
proof (cases obj)
  case (RRef a)
  show ?thesis
  proof (cases "read_replaced st redactKeys [] [] obj")
    case (Inl e)
    with assms RRef show ?thesis by (auto simp: cleanObject_store_def)
  next
    case (Inr serialized)
    show ?thesis
    proof (cases "JSON_parse_stringify serialized")
      case (Inl e)
      with assms RRef Inr show ?thesis by (auto simp: cleanObject_store_def)
    next
      case tr: (Inr tree)
      obtain cleaned st1 where al: "alloc tree st = (cleaned, st1)" by fastforce
      from assms RRef Inr tr al
      have "st' = st1 \<and> (\<forall>result. outcome = Inr result \<longrightarrow> result = cleaned \<or> (\<exists>s. result = RStr s))"
        by (auto simp: cleanObject_store_def split: option.splits if_splits)
      with alloc_fresh(1)[OF al] show ?thesis
        by (auto simp: fresh_extension_def)
    qed
  qed
qed (use assms in \<open>auto simp: cleanObject_store_def\<close>)

lemmas store_eval_simps =
  cleanObject_store_def read_replaced.simps replacer_ref_def eval_simps

text \<open>The stored object \<^verbatim>\<open>{name: "John", password: "secret123"}\<close>: the call appends the
  cleaned copy and returns its address.\<close>

theorem cleanObject_store_pure_witness:
  "cleanObject_store [CObj [(''name'', RStr ''John''), (''password'', RStr ''secret123'')]] (RRef 0)
       [''password''] 1000
     = (Inr (RRef 1),
        [CObj [(''name'', RStr ''John''), (''password'', RStr ''secret123'')],
         CObj [(''name'', RStr ''John''), (''password'', RStr ''[REDACTED]'')]])
   \<and> take (length [CObj [(''name'', RStr ''John''), (''password'', RStr ''secret123'')]])
          [CObj [(''name'', RStr ''John''), (''password'', RStr ''secret123'')],
           CObj [(''name'', RStr ''John''), (''password'', RStr ''[REDACTED]'')]]
       = [CObj [(''name'', RStr ''John''), (''password'', RStr ''secret123'')]]
   \<and> refs_of_val (RRef 1) \<subseteq> {1..<2}"
proof -
  let ?st = "[CObj [(''name'', RStr ''John''), (''password'', RStr ''secret123'')]]"
  let ?st' = "[CObj [(''name'', RStr ''John''), (''password'', RStr ''secret123'')],
               CObj [(''name'', RStr ''John''), (''password'', RStr ''[REDACTED]'')]]"
  have e: "cleanObject_store ?st (RRef 0) [''password''] 1000 = (Inr (RRef 1), ?st')"
    by (simp add: store_eval_simps)
  from cleanObject_store_pure[OF e] e show ?thesis by simp
qed

text \<open>An object that contains itself: \<^verbatim>\<open>JSON.stringify\<close> throws, and the store is as before.\<close>

lemma cleanObject_store_cycle:
  "cleanObject_store [CObj [(''self'', RRef 0)]] (RRef 0) [''password''] 1000
     = (Inl TypeError, [CObj [(''self'', RRef 0)]])"
  by (simp add: store_eval_simps)

text \<open>The store model agrees with the model on trees: when the store holds the tree \<open>t\<close>
  at an address, \<open>cleanObject_store\<close> returns, and what it returns is in the new store what
  \<open>cleanObject\<close> returns on \<open>t\<close>.\<close>

lemma replacer_ref_denied:
  "replacer_ref rk key v = (if denied rk key then RStr ''[REDACTED]'' else v)"
  by (simp add: replacer_ref_def denied_def)

lemma denied_Nil [simp]: "\<not> denied [] key"
  by (simp add: denied_def)

lemma read_replaced_refines:
  "read_replaced st none stack key v = Inr t \<Longrightarrow> none = [] \<Longrightarrow>
     read_replaced st rk stack key v = Inr (apply_replacer rk key t)"
  "read_elems st none stack i xs = Inr ts \<Longrightarrow> none = [] \<Longrightarrow>
     read_elems st rk stack i xs = Inr (replace_elems rk i ts)"
  "read_members st none stack ms = Inr ns \<Longrightarrow> none = [] \<Longrightarrow>
     read_members st rk stack ms = Inr (replace_members rk ns)"
proof (induction st none stack key v and st none stack i xs and st none stack ms
         arbitrary: t and ts and ns rule: read_replaced_read_elems_read_members.induct)
  case (1 st redactKeys stack key "value")
  show ?case
  proof (cases "denied rk key")
    case True
    then show ?thesis
      by (simp add: read_replaced.simps replacer_ref_denied apply_replacer_denied)
  next
    case False
    show ?thesis
    proof (cases "value")
      case (RRef a)
      from 1(3,4) RRef have ok: "a \<notin> set stack" "a < length st"
        by (auto simp: read_replaced.simps replacer_ref_denied split: if_splits)
      have r: "replacer_ref redactKeys key value = RRef a"
        using RRef 1(4) by (simp add: replacer_ref_denied)
      show ?thesis
      proof (cases "st ! a")
        case (CArr xs)
        from 1(3,4) RRef ok CArr obtain ys where
          ys: "read_elems st [] (a # stack) 0 xs = Inr ys" "t = VArr ys"
          by (auto simp: read_replaced.simps replacer_ref_denied split: sum.splits)
        have "read_elems st rk (a # stack) 0 xs = Inr (replace_elems rk 0 ys)"
          using 1(1)[OF r _ CArr _ 1(4)] ok ys(1) 1(4) by simp
        with False RRef ok CArr ys(2) show ?thesis
          by (simp add: read_replaced.simps replacer_ref_denied apply_replacer_kept)
      next
        case (CObj ms)
        from 1(3,4) RRef ok CObj obtain ys where
          ys: "read_members st [] (a # stack) ms = Inr ys" "t = VObj ys"
          by (auto simp: read_replaced.simps replacer_ref_denied split: sum.splits)
        have "read_members st rk (a # stack) ms = Inr (replace_members rk ys)"
          using 1(2)[OF r _ CObj _ 1(4)] ok ys(1) 1(4) by simp
        with False RRef ok CObj ys(2) show ?thesis
          by (simp add: read_replaced.simps replacer_ref_denied apply_replacer_kept)
      qed
    qed (use 1(3,4) False in \<open>auto simp: read_replaced.simps replacer_ref_denied apply_replacer_kept\<close>)
  qed
next
  case (3 st redactKeys stack i x xs)
  from 3(3) obtain y ys where
    y: "read_replaced st redactKeys stack (show_nat i) x = Inr y"
       "read_elems st redactKeys stack (Suc i) xs = Inr ys" "ts = y # ys"
    by (auto split: sum.splits)
  from 3(1)[OF y(1) 3(4)] 3(2)[OF y(1) y(2) 3(4)] y(3) show ?case by simp
next
  case (5 st redactKeys stack k v ms)
  from 5(3) obtain y ys where
    y: "read_replaced st redactKeys stack k v = Inr y"
       "read_members st redactKeys stack ms = Inr ys" "ns = (k, y) # ys"
    by (auto split: sum.splits)
  from 5(1)[OF y(1) 5(4)] 5(2)[OF y(1) y(2) 5(4)] y(3) show ?case by simp
qed simp_all


lemma alloc_prefix:
  "alloc t st = (r, st') \<Longrightarrow> \<exists>e. st' = st @ e"
  "alloc_elems xs st = (rs, st') \<Longrightarrow> \<exists>e. st' = st @ e"
  "alloc_members ms st = (ks, st') \<Longrightarrow> \<exists>e. st' = st @ e"
  by (meson alloc_fresh fresh_extension_iff)+

lemma alloc_read:
  "alloc t st = (r, st') \<Longrightarrow> \<forall>a\<in>set stack. a < length st \<or> length st' \<le> a
     \<Longrightarrow> read_replaced (st' @ ext) [] stack key r = Inr t"
  "alloc_elems xs st = (rs, st') \<Longrightarrow> \<forall>a\<in>set stack. a < length st \<or> length st' \<le> a
     \<Longrightarrow> read_elems (st' @ ext) [] stack i rs = Inr xs"
  "alloc_members ms st = (ks, st') \<Longrightarrow> \<forall>a\<in>set stack. a < length st \<or> length st' \<le> a
     \<Longrightarrow> read_members (st' @ ext) [] stack ks = Inr ms"
proof (induction t st and xs st and ms st
         arbitrary: r st' stack ext key and rs st' stack ext i and ks st' stack ext
         rule: alloc_alloc_elems_alloc_members.induct)
  case (6 xs st)
  obtain rs st1 where a: "alloc_elems xs st = (rs, st1)" by fastforce
  with 6(2) have r: "r = RRef (length st1)" "st' = st1 @ [CArr rs]" by auto
  from alloc_prefix(2)[OF a] obtain e where e: "st1 = st @ e" by blast
  have fresh: "length st1 \<notin> set stack"
    using 6(3) r(2) e by fastforce
  have "\<forall>b\<in>set (length st1 # stack). b < length st \<or> length st1 \<le> b"
    using 6(3) r(2) by fastforce
  from 6(1)[OF a this, of "[CArr rs] @ ext" 0]
  have "read_elems (st' @ ext) [] (length st1 # stack) 0 rs = Inr xs"
    by (simp add: r(2))
  with fresh show ?case
    by (simp add: read_replaced.simps replacer_ref_denied r nth_append)
next
  case (7 ms st)
  obtain ks st1 where a: "alloc_members ms st = (ks, st1)" by fastforce
  with 7(2) have r: "r = RRef (length st1)" "st' = st1 @ [CObj ks]" by auto
  from alloc_prefix(3)[OF a] obtain e where e: "st1 = st @ e" by blast
  have fresh: "length st1 \<notin> set stack"
    using 7(3) r(2) e by fastforce
  have "\<forall>b\<in>set (length st1 # stack). b < length st \<or> length st1 \<le> b"
    using 7(3) r(2) by fastforce
  from 7(1)[OF a this, of "[CObj ks] @ ext"]
  have "read_members (st' @ ext) [] (length st1 # stack) ks = Inr ms"
    by (simp add: r(2))
  with fresh show ?case
    by (simp add: read_replaced.simps replacer_ref_denied r nth_append)
next
  case (9 x xs st)
  obtain r1 sta where a: "alloc x st = (r1, sta)" by fastforce
  obtain rs1 stb where b: "alloc_elems xs sta = (rs1, stb)" by fastforce
  from 9(3) a b have eq: "rs = r1 # rs1" "st' = stb" by auto
  from alloc_prefix(1)[OF a] obtain e1 where e1: "sta = st @ e1" by blast
  from alloc_prefix(2)[OF b] obtain e2 where e2: "stb = sta @ e2" by blast
  have c1: "\<forall>a\<in>set stack. a < length st \<or> length sta \<le> a"
    using 9(4) eq(2) e2 by fastforce
  have c2: "\<forall>a\<in>set stack. a < length sta \<or> length stb \<le> a"
    using 9(4) eq(2) e1 by fastforce
  from 9(1)[OF a c1, of "e2 @ ext" "show_nat i"]
  have "read_replaced (st' @ ext) [] stack (show_nat i) r1 = Inr x"
    by (simp add: eq(2) e2)
  moreover from 9(2)[OF a[symmetric] b c2, of ext "Suc i"]
  have "read_elems (st' @ ext) [] stack (Suc i) rs1 = Inr xs"
    by (simp add: eq(2))
  ultimately show ?case by (simp add: eq(1))
next
  case (11 k v ms st)
  obtain r1 sta where a: "alloc v st = (r1, sta)" by fastforce
  obtain ks1 stb where b: "alloc_members ms sta = (ks1, stb)" by fastforce
  from 11(3) a b have eq: "ks = (k, r1) # ks1" "st' = stb" by auto
  from alloc_prefix(1)[OF a] obtain e1 where e1: "sta = st @ e1" by blast
  from alloc_prefix(3)[OF b] obtain e2 where e2: "stb = sta @ e2" by blast
  have c1: "\<forall>a\<in>set stack. a < length st \<or> length sta \<le> a"
    using 11(4) eq(2) e2 by fastforce
  have c2: "\<forall>a\<in>set stack. a < length sta \<or> length stb \<le> a"
    using 11(4) eq(2) e1 by fastforce
  from 11(1)[OF a c1, of "e2 @ ext" k]
  have "read_replaced (st' @ ext) [] stack k r1 = Inr v"
    by (simp add: eq(2) e2)
  moreover from 11(2)[OF a[symmetric] b c2, of ext]
  have "read_members (st' @ ext) [] stack ks1 = Inr ms"
    by (simp add: eq(2))
  ultimately show ?case by (simp add: eq(1))
qed (auto simp: read_replaced.simps replacer_ref_denied)

lemma read_ref_object:
  assumes "read_replaced st [] stack key (RRef a) = Inr t"
  shows "truthy t \<and> typeof_object t"
  using assms
  by (auto simp: read_replaced.simps replacer_ref_denied split: if_splits cell.splits sum.splits)

lemma cleanObject_store_refines:
  assumes "read_replaced st [] [] [] (RRef a) = Inr t"
  shows "\<exists>result st' c.
           cleanObject_store st (RRef a) redactKeys maxSize = (Inr result, st')
         \<and> cleanObject t redactKeys maxSize = Inr c
         \<and> read_replaced st' [] [] [] result = Inr c"
proof -
  from read_ref_object[OF assms] have ob: "truthy t" "typeof_object t" by simp_all
  from cleanObject_object[OF ob, of redactKeys maxSize]
  obtain cleaned compact jsonString where
    c: "JSON_parse_stringify (apply_replacer redactKeys [] t) = Inr cleaned"
       "JSON_stringify cleaned = Some compact"
       "cleanObject t redactKeys maxSize =
          (if int (length jsonString) > maxSize
           then Inr (VStr (substring0 compact maxSize @ ''... [TRUNCATED]''))
           else Inr cleaned)"
       and "JSON_stringify_pretty cleaned = Some jsonString"
       and "length compact \<le> length jsonString"
    by blast
  have rd: "read_replaced st redactKeys [] [] (RRef a) = Inr (apply_replacer redactKeys [] t)"
    using read_replaced_refines(1)[OF assms refl] .
  obtain r st1 where al: "alloc cleaned st = (r, st1)" by fastforce
  have rb: "read_replaced st1 [] [] [] r = Inr cleaned"
    using alloc_read(1)[OF al, of "[]" "[]" "[]"] by simp
  show ?thesis
  proof (cases "int (length jsonString) > maxSize")
    case True
    with rd c al \<open>JSON_stringify_pretty cleaned = Some jsonString\<close>
    have "cleanObject_store st (RRef a) redactKeys maxSize
            = (Inr (RStr (substring0 compact maxSize @ ''... [TRUNCATED]'')), st1)"
      by (simp add: cleanObject_store_def)
    with True c(3) show ?thesis
      by (simp add: read_replaced.simps replacer_ref_denied)
  next
    case False
    with rd c al \<open>JSON_stringify_pretty cleaned = Some jsonString\<close>
    have "cleanObject_store st (RRef a) redactKeys maxSize = (Inr r, st1)"
      by (simp add: cleanObject_store_def)
    with False c(3) rb show ?thesis by simp
  qed
qed

end
